theory Spec2Isabelle
  imports Main
begin

section \<open>JavaScript values, strings and documents\<close>

text \<open>
  The accept-invite controller (\<^verbatim>\<open>src/pages/AcceptInvite.tsx\<close>) reads documents as
  \<^verbatim>\<open>any\<close>, so a field holds an arbitrary JavaScript value. \<open>JUndefined\<close> is the value of
  an absent field; it is never stored. \<open>JTime n\<close> is a server timestamp. Strings are
  sequences of characters with code points below 256, on which \<^verbatim>\<open>trim\<close>, \<^verbatim>\<open>toLowerCase\<close>
  and \<^verbatim>\<open>encodeURIComponent\<close> are what ECMAScript defines.
\<close>

datatype jsval =
    JUndefined
  | JNull
  | JBool bool
  | JNum int
  | JStr string
  | JTime nat
  | JMap "(string \<times> jsval) list"

type_synonym doc = "string \<rightharpoonup> jsval"
type_synonym obj = "(string \<times> jsval) list"
type_synonym path = "string list"

fun truthy :: "jsval \<Rightarrow> bool" where
  "truthy JUndefined = False"
| "truthy JNull = False"
| "truthy (JBool b) = b"
| "truthy (JNum n) = (n \<noteq> 0)"
| "truthy (JStr s) = (s \<noteq> [])"
| "truthy (JTime t) = True"
| "truthy (JMap m) = True"

definition nullish :: "jsval \<Rightarrow> bool" where
  "nullish v = (v = JUndefined \<or> v = JNull)"

text \<open>\<^verbatim>\<open>a ?? b\<close>\<close>

definition coalesce :: "jsval \<Rightarrow> jsval \<Rightarrow> jsval" where
  "coalesce a b = (if nullish a then b else a)"

text \<open>\<^verbatim>\<open>d.k\<close> on a document read as \<^verbatim>\<open>any\<close>\<close>

definition field :: "doc \<Rightarrow> string \<Rightarrow> jsval" where
  "field d k = (case d k of None \<Rightarrow> JUndefined | Some v \<Rightarrow> v)"

text \<open>
  White space and line terminators below 256: tab, line feed, vertical tab, form feed,
  carriage return, space and no-break space.
\<close>

definition is_space :: "char \<Rightarrow> bool" where
  "is_space c = (of_char c \<in> {9, 10, 11, 12, 13, 32, 160 :: nat})"

definition trim :: "string \<Rightarrow> string" where
  "trim s = rev (dropWhile is_space (rev (dropWhile is_space s)))"

text \<open>
  The upper-case letters below 256 are \<^verbatim>\<open>A\<close> to \<^verbatim>\<open>Z\<close> and the accented capitals 192 to 222
  without the multiplication sign 215; each has its lower-case letter 32 places further.
\<close>

definition lower_char :: "char \<Rightarrow> char" where
  "lower_char c = (let n = (of_char c :: nat) in
     if (65 \<le> n \<and> n \<le> 90) \<or> (192 \<le> n \<and> n \<le> 222 \<and> n \<noteq> 215) then char_of (n + 32) else c)"

definition toLowerCase :: "string \<Rightarrow> string" where
  "toLowerCase s = map lower_char s"

text \<open>\<^verbatim>\<open>s.split(" ")\<close>, \<^verbatim>\<open>parts.join(" ")\<close> and \<^verbatim>\<open>s || null\<close> on a string\<close>

fun split_space :: "string \<Rightarrow> string list" where
  "split_space [] = [[]]"
| "split_space (c # cs) =
     (if c = CHR '' '' then [] # split_space cs
      else (case split_space cs of [] \<Rightarrow> [[c]] | p # ps \<Rightarrow> (c # p) # ps))"

fun join_space :: "string list \<Rightarrow> string" where
  "join_space [] = []"
| "join_space [p] = p"
| "join_space (p # q # ps) = p @ CHR '' '' # join_space (q # ps)"

definition or_null :: "string \<Rightarrow> string option" where
  "or_null s = (if s = [] then None else Some s)"

definition uri_unreserved :: "char \<Rightarrow> bool" where
  "uri_unreserved c = (let n = (of_char c :: nat) in
     (65 \<le> n \<and> n \<le> 90) \<or> (97 \<le> n \<and> n \<le> 122) \<or> (48 \<le> n \<and> n \<le> 57) \<or>
     n \<in> {45, 95, 46, 33, 126, 42, 39, 40, 41})"

definition hex_digit :: "nat \<Rightarrow> char" where
  "hex_digit n = ''0123456789ABCDEF'' ! (n mod 16)"

definition percent :: "nat \<Rightarrow> string" where
  "percent b = [CHR ''%'', hex_digit (b div 16), hex_digit b]"

text \<open>A character from 128 on is escaped as the two bytes of its UTF-8 encoding.\<close>

definition encodeURIComponent :: "string \<Rightarrow> string" where
  "encodeURIComponent s = concat (map (\<lambda>c.
     let n = (of_char c :: nat) in
     if uri_unreserved c then [c]
     else if n < 128 then percent n
     else percent (192 + n div 64) @ percent (128 + n mod 64)) s)"

text \<open>
  \<^verbatim>\<open>doc(db, c1, ..., cn)\<close> of the database client: every component is split at \<^verbatim>\<open>/\<close> and its
  empty pieces are dropped; a component that holds \<^verbatim>\<open>//\<close> is refused, and so is a path with
  an odd number of segments, which names no document.
\<close>

fun split_slash :: "string \<Rightarrow> string list" where
  "split_slash [] = [[]]"
| "split_slash (c # cs) =
     (if c = CHR ''/'' then [] # split_slash cs
      else (case split_slash cs of [] \<Rightarrow> [[c]] | p # ps \<Rightarrow> (c # p) # ps))"

definition segments :: "string \<Rightarrow> string list" where
  "segments s = filter (\<lambda>p. p \<noteq> []) (split_slash s)"

fun double_slash :: "string \<Rightarrow> bool" where
  "double_slash (a # b # cs) = ((a = CHR ''/'' \<and> b = CHR ''/'') \<or> double_slash (b # cs))"
| "double_slash [a] = False"
| "double_slash [] = False"

definition ref_path :: "string list \<Rightarrow> path" where
  "ref_path comps = concat (map segments comps)"

definition valid_ref :: "string list \<Rightarrow> bool" where
  "valid_ref comps = (\<not> list_ex double_slash comps \<and> even (length (ref_path comps)))"

section \<open>The world the controller runs in\<close>

record user =
  uid :: string
  email :: "string option"
  displayName :: "string option"

text \<open>The remote calls of one run, in program order.\<close>

datatype step =
    ReadToken | ReadInvite | ReadProfile | Claim | CreateMember
  | ReadOrg | Index | DeleteInvite | ScopeUpdate | ScopeSet

datatype fault = UndefinedField | NoDocument | NotAString | DoubleSlash | OddSegments

text \<open>
  What the program does not decide: whether a remote call is rejected (and with what
  message), the server clock, the messages of the database client's own errors, whether
  the client was configured to drop \<^verbatim>\<open>undefined\<close> fields (the configuration module is not
  among the sources), whether \<^verbatim>\<open>setItem\<close> on a key exceeds the quota, and the identity
  held by the scope provider.
\<close>

record env =
  rejects :: "step \<Rightarrow> string option"
  now :: nat
  sdk_message :: "fault \<Rightarrow> string"
  ignore_undefined :: bool
  set_throws :: "string \<Rightarrow> bool"
  provider_user :: "string option"

text \<open>
  A remote call is \<^verbatim>\<open>getDoc\<close>, \<^verbatim>\<open>updateDoc\<close> with the fields sent, \<^verbatim>\<open>setDoc\<close> with the
  fields sent and its \<^verbatim>\<open>merge\<close> option, or \<^verbatim>\<open>deleteDoc\<close>. An event is a call that was
  issued, with the place in the program that issued it, the document it addressed and
  whether it succeeded, or a storage call and whether it succeeded.
\<close>

datatype call = GetDoc | UpdateDoc doc | SetDoc doc bool | DeleteDoc

datatype ls_op = SetItemOp string string | RemoveItemOp string

datatype event =
    Remote step call path bool
  | Storage ls_op bool

datatype navigation = Nav string "jsval option"

text \<open>
  \<open>db\<close> is the document store, \<open>ls\<close> is \<^verbatim>\<open>localStorage\<close> (\<open>None\<close> when the browser
  denies access, so that every access throws), \<open>scope\<close> is the scope provider's state
  (\<open>None\<close> while no org is selected), \<open>err\<close>, \<open>busy\<close> and \<open>completed\<close> are the component's
  state and ref, \<open>nav\<close> is the last navigation (with the org name of its toast), and
  \<open>trace\<close> lists the remote and storage calls issued by the current run.
\<close>

record world =
  db :: "path \<rightharpoonup> doc"
  ls :: "(string \<rightharpoonup> string) option"
  scope :: "(string \<times> jsval) option"
  err :: "string option"
  busy :: bool
  completed :: bool
  nav :: "navigation option"
  trace :: "event list"

text \<open>A thrown exception or rejected promise is \<open>Inl\<close> of its message.\<close>

type_synonym 'a result = "string + 'a"

text \<open>
  How a run ends: the error of the token's reference or the rejection of the token read,
  which nothing handles; an error message set by one of the controller's own checks; the
  message of an exception caught by the callback; the redirect to onboarding; or the join,
  with the org name of the success notice.
\<close>

datatype outcome =
    Unhandled string
  | Failed string
  | Caught string
  | ToOnboarding
  | Joined jsval

definition log :: "event \<Rightarrow> world \<Rightarrow> world" where
  "log e w = w\<lparr>trace := trace w @ [e]\<rparr>"

subsection \<open>Local storage\<close>

definition PENDING_INVITE_KEY :: string where
  "PENDING_INVITE_KEY = ''pendingInvitePath''"

definition AFTER_ONBOARDING_NEXT :: string where
  "AFTER_ONBOARDING_NEXT = ''afterOnboardingNext''"

text \<open>\<^verbatim>\<open>try { op; ...; op } catch { }\<close>: the first call that throws ends the block.\<close>

fun try_ls :: "env \<Rightarrow> ls_op list \<Rightarrow> world \<Rightarrow> world" where
  "try_ls e [] w = w"
| "try_ls e (RemoveItemOp k # ops) w =
     (case ls w of
        None \<Rightarrow> log (Storage (RemoveItemOp k) False) w
      | Some m \<Rightarrow> try_ls e ops (log (Storage (RemoveItemOp k) True) (w\<lparr>ls := Some (m(k := None))\<rparr>)))"
| "try_ls e (SetItemOp k v # ops) w =
     (case ls w of
        None \<Rightarrow> log (Storage (SetItemOp k v) False) w
      | Some m \<Rightarrow>
          if set_throws e k then log (Storage (SetItemOp k v) False) w
          else try_ls e ops (log (Storage (SetItemOp k v) True) (w\<lparr>ls := Some (m(k \<mapsto> v))\<rparr>)))"

definition getItem :: "world \<Rightarrow> string \<Rightarrow> string option" where
  "getItem w k = (case ls w of None \<Rightarrow> None | Some m \<Rightarrow> m k)"

subsection \<open>The document store\<close>

text \<open>\<^verbatim>\<open>doc(db, c1, ..., cn)\<close>: the reference, or the error thrown.\<close>

definition doc_ref :: "env \<Rightarrow> string list \<Rightarrow> path result" where
  "doc_ref e comps =
     (if list_ex double_slash comps then Inl (sdk_message e DoubleSlash)
      else if odd (length (ref_path comps)) then Inl (sdk_message e OddSegments)
      else Inr (ref_path comps))"

text \<open>The documents the controller and the scope provider address.\<close>

definition token_path :: "string \<Rightarrow> string \<Rightarrow> path" where
  "token_path orgId token = ref_path [''orgs'', orgId, ''inviteTokens'', token]"

definition invite_path :: "string \<Rightarrow> string \<Rightarrow> path" where
  "invite_path orgId inviteId = ref_path [''orgs'', orgId, ''invites'', inviteId]"

definition member_path :: "string \<Rightarrow> string \<Rightarrow> path" where
  "member_path orgId u = ref_path [''orgs'', orgId, ''members'', u]"

definition membership_path :: "string \<Rightarrow> string \<Rightarrow> path" where
  "membership_path u orgId = ref_path [''users'', u, ''orgMemberships'', orgId]"

definition user_path :: "string \<Rightarrow> path" where
  "user_path u = ref_path [''users'', u]"

definition org_path :: "string \<Rightarrow> path" where
  "org_path orgId = ref_path [''orgs'', orgId]"

text \<open>The fields an object literal sends; an \<^verbatim>\<open>undefined\<close> field is dropped when the client allows it.\<close>

definition payload :: "obj \<Rightarrow> doc" where
  "payload ob = map_of (filter (\<lambda>kv. snd kv \<noteq> JUndefined) ob)"

definition has_undefined :: "obj \<Rightarrow> bool" where
  "has_undefined ob = (JUndefined \<in> snd ` set ob)"

text \<open>
  Merging a written field into a stored one: a map is merged into a stored map key by
  key, any other value replaces what was stored. The only map this program writes is
  the scope pointer, whose entries are not maps.
\<close>

definition merge_field :: "jsval option \<Rightarrow> jsval \<Rightarrow> jsval" where
  "merge_field old v = (case (old, v) of
      (Some (JMap a), JMap b) \<Rightarrow> JMap (filter (\<lambda>kv. fst kv \<notin> fst ` set b) a @ b)
    | _ \<Rightarrow> v)"

definition merge_doc :: "doc \<Rightarrow> doc \<Rightarrow> doc" where
  "merge_doc old new = (\<lambda>k. case new k of None \<Rightarrow> old k | Some v \<Rightarrow> Some (merge_field (old k) v))"

definition get_doc :: "env \<Rightarrow> step \<Rightarrow> path \<Rightarrow> world \<Rightarrow> doc option result \<times> world" where
  "get_doc e s p w = (case rejects e s of
      Some m \<Rightarrow> (Inl m, log (Remote s GetDoc p False) w)
    | None \<Rightarrow> (Inr (db w p), log (Remote s GetDoc p True) w))"

text \<open>\<^verbatim>\<open>updateDoc\<close>: top-level fields replace the stored ones; the document must exist.\<close>

definition update_doc :: "env \<Rightarrow> step \<Rightarrow> path \<Rightarrow> obj \<Rightarrow> world \<Rightarrow> unit result \<times> world" where
  "update_doc e s p ob w =
     (if has_undefined ob \<and> \<not> ignore_undefined e then (Inl (sdk_message e UndefinedField), w)
      else case rejects e s of
          Some m \<Rightarrow> (Inl m, log (Remote s (UpdateDoc (payload ob)) p False) w)
        | None \<Rightarrow> (case db w p of
              None \<Rightarrow> (Inl (sdk_message e NoDocument), log (Remote s (UpdateDoc (payload ob)) p False) w)
            | Some d \<Rightarrow> (Inr (), log (Remote s (UpdateDoc (payload ob)) p True) (w\<lparr>db := (db w)(p \<mapsto> d ++ payload ob)\<rparr>))))"

text \<open>\<^verbatim>\<open>setDoc(ref, data, { merge })\<close>\<close>

definition set_doc :: "env \<Rightarrow> step \<Rightarrow> path \<Rightarrow> obj \<Rightarrow> bool \<Rightarrow> world \<Rightarrow> unit result \<times> world" where
  "set_doc e s p ob merge w =
     (if has_undefined ob \<and> \<not> ignore_undefined e then (Inl (sdk_message e UndefinedField), w)
      else case rejects e s of
          Some m \<Rightarrow> (Inl m, log (Remote s (SetDoc (payload ob) merge) p False) w)
        | None \<Rightarrow>
            (let d = (case db w p of
                        None \<Rightarrow> payload ob
                      | Some old \<Rightarrow> if merge then merge_doc old (payload ob) else payload ob)
             in (Inr (), log (Remote s (SetDoc (payload ob) merge) p True) (w\<lparr>db := (db w)(p \<mapsto> d)\<rparr>))))"

definition delete_doc :: "env \<Rightarrow> step \<Rightarrow> path \<Rightarrow> world \<Rightarrow> unit result \<times> world" where
  "delete_doc e s p w = (case rejects e s of
      Some m \<Rightarrow> (Inl m, log (Remote s DeleteDoc p False) w)
    | None \<Rightarrow> (Inr (), log (Remote s DeleteDoc p True) (w\<lparr>db := (db w)(p := None)\<rparr>)))"

section \<open>The scope provider's \<^verbatim>\<open>setOrg\<close>\<close>

definition setOrg :: "env \<Rightarrow> string \<Rightarrow> jsval \<Rightarrow> world \<Rightarrow> unit result \<times> world" where
  "setOrg e orgId orgName w =
     (if orgId = [] then (Inl ''setOrg: missing orgId'', w)
      else
        let nm = coalesce orgName JNull;
            w1 = w\<lparr>scope := Some (orgId, nm)\<rparr>;
            ob = [(''scope'', JMap [(''mode'', JStr ''org''), (''orgId'', JStr orgId), (''orgName'', nm)])]
        in case provider_user e of
             None \<Rightarrow> (Inr (), w1)
           | Some u \<Rightarrow>
               (case (case doc_ref e [''users'', u] of
                        Inl m \<Rightarrow> (Inl m, w1)
                      | Inr p \<Rightarrow> update_doc e ScopeUpdate p ob w1) of
                  (Inr x, w2) \<Rightarrow> (Inr (), w2)
                | (Inl m, w2) \<Rightarrow>
                    (case doc_ref e [''users'', u] of
                       Inl m' \<Rightarrow> (Inl m', w2)
                     | Inr p \<Rightarrow> set_doc e ScopeSet p ob True w2)))"

section \<open>The accept-invite controller\<close>

definition invitePath :: "string option \<Rightarrow> string \<Rightarrow> string" where
  "invitePath token orgId = (case token of
      None \<Rightarrow> []
    | Some t \<Rightarrow>
        if t \<noteq> [] \<and> orgId \<noteq> []
        then ''/invite/'' @ encodeURIComponent t @ ''?org='' @ encodeURIComponent orgId
        else [])"

definition clear_pointers :: "env \<Rightarrow> world \<Rightarrow> world" where
  "clear_pointers e w =
     try_ls e [RemoveItemOp PENDING_INVITE_KEY, RemoveItemOp AFTER_ONBOARDING_NEXT] w"

definition stash :: "env \<Rightarrow> string \<Rightarrow> world \<Rightarrow> world" where
  "stash e ip w =
     try_ls e (if ip \<noteq> [] then [SetItemOp PENDING_INVITE_KEY ip, SetItemOp AFTER_ONBOARDING_NEXT ip]
               else []) w"

text \<open>\<^verbatim>\<open>setErr(msg); setBusy(false); return\<close>\<close>

definition fail :: "string \<Rightarrow> world \<Rightarrow> outcome result \<times> world" where
  "fail msg w = (Inr (Failed msg), w\<lparr>err := Some msg, busy := False\<rparr>)"

text \<open>\<^verbatim>\<open>(u.email || "").trim().toLowerCase() || null\<close>\<close>

definition myEmail :: "user \<Rightarrow> string option" where
  "myEmail u = or_null (toLowerCase (trim (case email u of None \<Rightarrow> [] | Some s \<Rightarrow> s)))"

definition js_of :: "string option \<Rightarrow> jsval" where
  "js_of s = (case s of None \<Rightarrow> JNull | Some x \<Rightarrow> JStr x)"

text \<open>\<^verbatim>\<open>inv.email_lc ?? (typeof inv.email === "string" ? inv.email.trim().toLowerCase() : null)\<close>\<close>

definition inviteEmailLC :: "doc \<Rightarrow> jsval" where
  "inviteEmailLC iv = coalesce (field iv ''email_lc'')
     (case field iv ''email'' of JStr s \<Rightarrow> JStr (toLowerCase (trim s)) | _ \<Rightarrow> JNull)"

definition email_mismatch :: "doc \<Rightarrow> user \<Rightarrow> bool" where
  "email_mismatch iv u =
     (truthy (inviteEmailLC iv) \<and> myEmail u \<noteq> None \<and> inviteEmailLC iv \<noteq> js_of (myEmail u))"

text \<open>
  \<^verbatim>\<open>(p?.firstName || "").trim() || null\<close>: the outer \<open>None\<close> is the \<^verbatim>\<open>TypeError\<close> of
  calling \<^verbatim>\<open>trim\<close> on a truthy value that is not a string.
\<close>

definition name_field :: "jsval \<Rightarrow> string option option" where
  "name_field v =
     (if \<not> truthy v then Some None
      else case v of JStr s \<Rightarrow> Some (or_null (trim s)) | _ \<Rightarrow> None)"

text \<open>The names read from the profile document, inside \<^verbatim>\<open>try { } catch { }\<close>.\<close>

definition profile_names :: "doc option result \<Rightarrow> string option \<times> string option" where
  "profile_names r = (case r of
      Inl m \<Rightarrow> (None, None)
    | Inr None \<Rightarrow> (None, None)
    | Inr (Some p) \<Rightarrow>
        (case name_field (field p ''firstName'') of
           None \<Rightarrow> (None, None)
         | Some fn \<Rightarrow>
             (case name_field (field p ''lastName'') of
                None \<Rightarrow> (fn, None)
              | Some ln \<Rightarrow> (fn, ln))))"

text \<open>The last resort: the parts of the provider's display name.\<close>

definition display_names :: "user \<Rightarrow> string option \<times> string option \<Rightarrow> string option \<times> string option" where
  "display_names u names = (case names of (firstName, lastName) \<Rightarrow>
     if firstName = None \<or> lastName = None then
       let parts = filter (\<lambda>p. p \<noteq> [])
                     (split_space (trim (case displayName u of None \<Rightarrow> [] | Some s \<Rightarrow> s)))
       in ((case firstName of Some f \<Rightarrow> Some f
            | None \<Rightarrow> (case parts of [] \<Rightarrow> None | p # ps \<Rightarrow> Some p)),
           (case lastName of Some l \<Rightarrow> Some l
            | None \<Rightarrow> or_null (join_space (tl parts))))
     else (firstName, lastName))"

definition role_of :: "doc \<Rightarrow> jsval" where
  "role_of iv = coalesce (field iv ''role'') (JStr ''member'')"

definition claim_obj :: "env \<Rightarrow> doc \<Rightarrow> user \<Rightarrow> string \<Rightarrow> string \<Rightarrow> obj" where
  "claim_obj e iv u firstName lastName =
     [(''status'', coalesce (field iv ''status'') (JStr ''pending'')),
      (''role'', role_of iv),
      (''email'', coalesce (field iv ''email'') JNull),
      (''phone'', coalesce (field iv ''phone'') JNull),
      (''createdBy'', field iv ''createdBy''),
      (''claimedBy'', JStr (uid u)),
      (''claimedEmail'', js_of (myEmail u)),
      (''claimedEmail_lc'', js_of (myEmail u)),
      (''claimedFirstName'', JStr firstName),
      (''claimedLastName'', JStr lastName),
      (''claimedAt'', JTime (now e))]"

definition member_obj :: "env \<Rightarrow> doc \<Rightarrow> user \<Rightarrow> string \<Rightarrow> string \<Rightarrow> string \<Rightarrow> obj" where
  "member_obj e iv u firstName lastName inviteId =
     [(''userId'', JStr (uid u)),
      (''email'', js_of (email u)),
      (''firstName'', JStr firstName),
      (''lastName'', JStr lastName),
      (''role'', role_of iv),
      (''addedAt'', JTime (now e)),
      (''fromInviteId'', JStr inviteId)]"

definition index_obj :: "env \<Rightarrow> doc \<Rightarrow> string \<Rightarrow> jsval \<Rightarrow> obj" where
  "index_obj e iv orgId orgName =
     [(''orgId'', JStr orgId),
      (''orgName'', orgName),
      (''role'', role_of iv),
      (''joinedAt'', JTime (now e))]"

text \<open>
  \<^verbatim>\<open>let orgName = "Clinic"; try { orgName = (orgSnap.data()?.name as string) || orgName } catch { }\<close>
\<close>

definition org_name :: "doc option result \<Rightarrow> jsval" where
  "org_name r = (case r of
      Inl m \<Rightarrow> JStr ''Clinic''
    | Inr None \<Rightarrow> JStr ''Clinic''
    | Inr (Some d) \<Rightarrow> if truthy (field d ''name'') then field d ''name'' else JStr ''Clinic'')"

text \<open>Steps 7 and 8 of the callback: delete the invite, clear the pointers, set the scope, leave.\<close>

definition finalise :: "env \<Rightarrow> string \<Rightarrow> string \<Rightarrow> jsval \<Rightarrow> world \<Rightarrow> outcome result \<times> world" where
  "finalise e orgId inviteId orgName w =
     (let w1 = snd (delete_doc e DeleteInvite (invite_path orgId inviteId) w);
          w2 = clear_pointers e w1
      in case setOrg e orgId orgName w2 of
           (Inl m, w3) \<Rightarrow> (Inl m, w3)
         | (Inr x, w3) \<Rightarrow>
             (Inr (Joined orgName),
              if \<not> completed w3
              then w3\<lparr>completed := True, nav := Some (Nav ''/'' (Some orgName))\<rparr>
              else w3))"

text \<open>\<^verbatim>\<open>getDoc(doc(db, "orgs", orgId))\<close>, inside \<^verbatim>\<open>try { } catch { }\<close>\<close>

definition org_read :: "env \<Rightarrow> string \<Rightarrow> world \<Rightarrow> doc option result \<times> world" where
  "org_read e orgId w = (case doc_ref e [''orgs'', orgId] of
      Inl m \<Rightarrow> (Inl m, w)
    | Inr p \<Rightarrow> get_doc e ReadOrg p w)"

text \<open>Step 6: the reverse index.\<close>

definition reverse_index :: "env \<Rightarrow> string \<Rightarrow> string \<Rightarrow> doc \<Rightarrow> user \<Rightarrow> world
    \<Rightarrow> outcome result \<times> world" where
  "reverse_index e orgId inviteId iv u w =
     (case org_read e orgId w of (r, w1) \<Rightarrow>
        (let orgName = org_name r
         in case doc_ref e [''users'', uid u, ''orgMemberships'', orgId] of
              Inl m \<Rightarrow> (Inl m, w1)
            | Inr p \<Rightarrow>
                (case set_doc e Index p (index_obj e iv orgId orgName) True w1 of
                   (Inl m, w2) \<Rightarrow> (Inl m, w2)
                 | (Inr x, w2) \<Rightarrow> finalise e orgId inviteId orgName w2)))"

text \<open>Step 5: the member record.\<close>

definition create_member :: "env \<Rightarrow> string \<Rightarrow> string \<Rightarrow> doc \<Rightarrow> user \<Rightarrow> string \<Rightarrow> string \<Rightarrow> world
    \<Rightarrow> outcome result \<times> world" where
  "create_member e orgId inviteId iv u firstName lastName w =
     (case doc_ref e [''orgs'', orgId, ''members'', uid u] of
        Inl m \<Rightarrow> (Inl m, w)
      | Inr p \<Rightarrow>
          (case set_doc e CreateMember p (member_obj e iv u firstName lastName inviteId) False w of
             (Inl m, w1) \<Rightarrow> (Inl m, w1)
           | (Inr x, w1) \<Rightarrow> reverse_index e orgId inviteId iv u w1))"

text \<open>Step 4: the claim, on the invite's reference, and then the steps after it.\<close>

definition join :: "env \<Rightarrow> string \<Rightarrow> string \<Rightarrow> doc \<Rightarrow> user \<Rightarrow> string \<Rightarrow> string \<Rightarrow> world
    \<Rightarrow> outcome result \<times> world" where
  "join e orgId inviteId iv u firstName lastName w =
     (case update_doc e Claim (invite_path orgId inviteId) (claim_obj e iv u firstName lastName) w of
        (Inl m, w1) \<Rightarrow> (Inl m, w1)
      | (Inr x, w1) \<Rightarrow> create_member e orgId inviteId iv u firstName lastName w1)"

text \<open>\<^verbatim>\<open>getDoc(doc(db, "users", u.uid))\<close>, inside \<^verbatim>\<open>try { } catch { }\<close>\<close>

definition profile_read :: "env \<Rightarrow> user \<Rightarrow> world \<Rightarrow> doc option result \<times> world" where
  "profile_read e u w = (case doc_ref e [''users'', uid u] of
      Inl m \<Rightarrow> (Inl m, w)
    | Inr p \<Rightarrow> get_doc e ReadProfile p w)"

text \<open>Steps 2 and 3 of the callback, after the invite was read.\<close>

definition checks :: "env \<Rightarrow> string \<Rightarrow> string \<Rightarrow> doc \<Rightarrow> string \<Rightarrow> user \<Rightarrow> world
    \<Rightarrow> outcome result \<times> world" where
  "checks e orgId inviteId iv ip u w =
     (if truthy (field iv ''status'') \<and> field iv ''status'' \<noteq> JStr ''pending''
      then fail ''This invitation is not pending anymore.'' w
      else if email_mismatch iv u
      then fail ''This invitation is addressed to a different email.'' w
      else
        (case profile_read e u w of (r, w1) \<Rightarrow>
        (case display_names u (profile_names r) of
           (Some firstName, Some lastName) \<Rightarrow> join e orgId inviteId iv u firstName lastName w1
         | _ \<Rightarrow>
             (Inr ToOnboarding,
              (try_ls e [SetItemOp AFTER_ONBOARDING_NEXT ip] w1)\<lparr>nav := Some (Nav ''/onboarding'' None)\<rparr>))))"

text \<open>The \<^verbatim>\<open>try\<close> block of the callback for a signed-in user.\<close>

definition resolve :: "env \<Rightarrow> string \<Rightarrow> doc \<Rightarrow> string \<Rightarrow> user \<Rightarrow> world \<Rightarrow> outcome result \<times> world" where
  "resolve e orgId tok ip u w =
     (if \<not> truthy (field tok ''inviteId'') then fail ''Malformed invite token.'' w
      else case field tok ''inviteId'' of
          JStr inviteId \<Rightarrow>
            (case doc_ref e [''orgs'', orgId, ''invites'', inviteId] of
               Inl m \<Rightarrow> (Inl m, w)
             | Inr inviteRef \<Rightarrow>
                 (case get_doc e ReadInvite inviteRef w of
                    (Inl m, w1) \<Rightarrow> (Inl m, w1)
                  | (Inr None, w1) \<Rightarrow> fail ''Invite not found.'' w1
                  | (Inr (Some iv), w1) \<Rightarrow> checks e orgId inviteId iv ip u w1))
        | _ \<Rightarrow> (Inl (sdk_message e NotAString), w))"

text \<open>\<^verbatim>\<open>catch (e) { setErr(e?.message || "...") } finally { setBusy(false) }\<close>\<close>

definition finish :: "outcome result \<times> world \<Rightarrow> outcome \<times> world" where
  "finish r = (case r of
      (Inl m, w) \<Rightarrow>
        (let msg = (if m = [] then ''Could not process invitation. Please try again.'' else m)
         in (Caught msg, w\<lparr>err := Some msg, busy := False\<rparr>))
    | (Inr out, w) \<Rightarrow> (out, w\<lparr>busy := False\<rparr>))"

text \<open>The \<^verbatim>\<open>onAuthStateChanged\<close> callback.\<close>

definition on_auth :: "env \<Rightarrow> string \<Rightarrow> doc \<Rightarrow> string \<Rightarrow> user option \<Rightarrow> world \<Rightarrow> outcome \<times> world" where
  "on_auth e orgId tok ip usr w = (case usr of
      None \<Rightarrow>
        (Failed ''Please sign in to accept the invitation.'',
         w\<lparr>busy := False, err := Some ''Please sign in to accept the invitation.''\<rparr>)
    | Some u \<Rightarrow> finish (resolve e orgId tok ip u (w\<lparr>busy := True\<rparr>)))"

text \<open>
  One run of the effect for the link's token and \<^verbatim>\<open>org\<close> parameter, with the identity
  that the authentication service then reports.
\<close>

definition accept_invite :: "env \<Rightarrow> string option \<Rightarrow> string option \<Rightarrow> user option \<Rightarrow> world
    \<Rightarrow> outcome \<times> world" where
  "accept_invite e token org usr w =
     (let orgId = (case org of None \<Rightarrow> [] | Some s \<Rightarrow> s);
          ip = invitePath token orgId;
          w0 = w\<lparr>err := None, trace := []\<rparr>
      in case token of
           None \<Rightarrow>
             (Failed ''Invalid invite link.'',
              (clear_pointers e w0)\<lparr>busy := False, err := Some ''Invalid invite link.''\<rparr>)
         | Some t \<Rightarrow>
             if t = [] \<or> orgId = [] then
               (Failed ''Invalid invite link.'',
                (clear_pointers e w0)\<lparr>busy := False, err := Some ''Invalid invite link.''\<rparr>)
             else
               (case doc_ref e [''orgs'', orgId, ''inviteTokens'', t] of
                  Inl m \<Rightarrow> (Unhandled m, w0)
                | Inr tokenRef \<Rightarrow>
                    (case get_doc e ReadToken tokenRef w0 of
                       (Inl m, w1) \<Rightarrow> (Unhandled m, w1)
                     | (Inr None, w1) \<Rightarrow>
                         (Failed ''Invite token not found or expired.'',
                          (clear_pointers e w1)\<lparr>busy := False, err := Some ''Invite token not found or expired.''\<rparr>)
                     | (Inr (Some tok), w1) \<Rightarrow> on_auth e orgId tok ip usr (stash e ip w1))))"

section \<open>Notions of the specification\<close>

text \<open>The failures of the state machine, by the message the controller shows.\<close>

abbreviation invalid_link :: outcome where
  "invalid_link \<equiv> Failed ''Invalid invite link.''"

abbreviation token_not_found :: outcome where
  "token_not_found \<equiv> Failed ''Invite token not found or expired.''"

abbreviation invite_not_found :: outcome where
  "invite_not_found \<equiv> Failed ''Invite not found.''"

abbreviation malformed_token :: outcome where
  "malformed_token \<equiv> Failed ''Malformed invite token.''"

abbreviation not_pending :: outcome where
  "not_pending \<equiv> Failed ''This invitation is not pending anymore.''"

abbreviation wrong_email :: outcome where
  "wrong_email \<equiv> Failed ''This invitation is addressed to a different email.''"

fun is_write :: "call \<Rightarrow> bool" where
  "is_write GetDoc = False"
| "is_write (UpdateDoc d) = True"
| "is_write (SetDoc d m) = True"
| "is_write DeleteDoc = True"

text \<open>The remote calls of a trace, and its remote writes: place, document, success.\<close>

fun remote_calls :: "event list \<Rightarrow> (step \<times> path \<times> bool) list" where
  "remote_calls [] = []"
| "remote_calls (Remote s c p ok # evs) = (s, p, ok) # remote_calls evs"
| "remote_calls (Storage x ok # evs) = remote_calls evs"

fun writes :: "event list \<Rightarrow> (step \<times> path \<times> bool) list" where
  "writes [] = []"
| "writes (Remote s c p ok # evs) = (if is_write c then (s, p, ok) # writes evs else writes evs)"
| "writes (Storage x ok # evs) = writes evs"

text \<open>The storage calls of a trace.\<close>

fun storage_calls :: "event list \<Rightarrow> (ls_op \<times> bool) list" where
  "storage_calls [] = []"
| "storage_calls (Remote s c p ok # evs) = storage_calls evs"
| "storage_calls (Storage x ok # evs) = (x, ok) # storage_calls evs"

fun is_set_item :: "ls_op \<times> bool \<Rightarrow> bool" where
  "is_set_item (SetItemOp k v, ok) = True"
| "is_set_item (RemoveItemOp k, ok) = False"

definition pointers_cleared :: "world \<Rightarrow> bool" where
  "pointers_cleared w =
     (getItem w PENDING_INVITE_KEY = None \<and> getItem w AFTER_ONBOARDING_NEXT = None)"

text \<open>The world in which the callback starts: the token was read, the link stashed.\<close>

definition at_callback :: "env \<Rightarrow> string \<Rightarrow> string \<Rightarrow> world \<Rightarrow> world" where
  "at_callback e t orgId w =
     stash e (invitePath (Some t) orgId)
       (log (Remote ReadToken GetDoc (token_path orgId t) True) (w\<lparr>err := None, trace := []\<rparr>))"

text \<open>The world in which the checks start: the callback also read the invite.\<close>

definition at_checks :: "env \<Rightarrow> string \<Rightarrow> string \<Rightarrow> string \<Rightarrow> world \<Rightarrow> world" where
  "at_checks e t orgId inviteId w =
     log (Remote ReadInvite GetDoc (invite_path orgId inviteId) True)
       ((at_callback e t orgId w)\<lparr>busy := True\<rparr>)"

text \<open>
  The link is well formed and names a token document, its token record exists and names
  \<open>inviteId\<close>, which names an invite document, and the invite record \<open>iv\<close> is stored there;
  both reads succeed.
\<close>

definition invite_resolved :: "env \<Rightarrow> string \<Rightarrow> string \<Rightarrow> world \<Rightarrow> string \<Rightarrow> doc \<Rightarrow> bool" where
  "invite_resolved e t orgId w inviteId iv =
     (t \<noteq> [] \<and> orgId \<noteq> [] \<and> valid_ref [''orgs'', orgId, ''inviteTokens'', t] \<and>
      rejects e ReadToken = None \<and>
      (case db w (token_path orgId t) of
         None \<Rightarrow> False
       | Some tok \<Rightarrow> field tok ''inviteId'' = JStr inviteId) \<and>
      inviteId \<noteq> [] \<and> valid_ref [''orgs'', orgId, ''invites'', inviteId] \<and>
      rejects e ReadInvite = None \<and>
      db w (invite_path orgId inviteId) = Some iv)"

text \<open>The invite's status lets the run pass, and so does the email guard.\<close>

definition status_open :: "doc \<Rightarrow> bool" where
  "status_open iv = (\<not> truthy (field iv ''status'') \<or> field iv ''status'' = JStr ''pending'')"

text \<open>The names the controller resolves for the caller: profile first, display name last.\<close>

definition resolved_names :: "env \<Rightarrow> user \<Rightarrow> world \<Rightarrow> string option \<times> string option" where
  "resolved_names e u w = display_names u (profile_names (fst (profile_read e u w)))"

text \<open>The writes of the scope provider.\<close>

definition scope_only :: "(step \<times> path \<times> bool) list \<Rightarrow> bool" where
  "scope_only rest = (\<forall>x\<in>set rest. fst x \<in> {ScopeUpdate, ScopeSet})"

text \<open>
  The order of the remote writes of a run for org \<open>g\<close>, invite \<open>i\<close> and user \<open>u\<close>: claim,
  member, reverse index, deletion, each attempted only after the one before it succeeded,
  and a failed one is the last; after the deletion, whatever its success, only the scope
  provider writes. A claim that succeeded is the last write only when the org and user ids
  name no member document, so that the member step fails before its write is issued.
\<close>

fun write_order :: "string \<Rightarrow> string \<Rightarrow> string \<Rightarrow> (step \<times> path \<times> bool) list \<Rightarrow> bool" where
  "write_order g i u [] = True"
| "write_order g i u [a] =
     (a = (Claim, invite_path g i, False) \<or>
      (a = (Claim, invite_path g i, True) \<and> \<not> valid_ref [''orgs'', g, ''members'', u]))"
| "write_order g i u [a, b] =
     (a = (Claim, invite_path g i, True) \<and> b = (CreateMember, member_path g u, False))"
| "write_order g i u [a, b, c] =
     (a = (Claim, invite_path g i, True) \<and> b = (CreateMember, member_path g u, True) \<and>
      c = (Index, membership_path u g, False))"
| "write_order g i u (a # b # c # d # rest) =
     (a = (Claim, invite_path g i, True) \<and> b = (CreateMember, member_path g u, True) \<and>
      c = (Index, membership_path u g, True) \<and>
      fst d = DeleteInvite \<and> fst (snd d) = invite_path g i \<and>
      list_all (\<lambda>x. fst x = ScopeUpdate \<or> fst x = ScopeSet) rest)"

section \<open>The scenarios of the specification\<close>

text \<open>
  Scenario A: the link \<^verbatim>\<open>/invite/tok123?org=orgA\<close>, a pending invite for
  \<^verbatim>\<open>pat@example.com\<close>, and the caller Pat Lee, whose profile has both names. The browser
  still holds the pointers of an older link.
\<close>

definition envA :: env where
  "envA = \<lparr>rejects = (\<lambda>s. None), now = 1, sdk_message = (\<lambda>f. ''invalid''), ignore_undefined = False,
            set_throws = (\<lambda>k. False), provider_user = Some ''u1''\<rparr>"

definition userPat :: user where
  "userPat = \<lparr>uid = ''u1'', email = Some ''Pat@Example.com'', displayName = None\<rparr>"

definition inviteA :: doc where
  "inviteA = [''status'' \<mapsto> JStr ''pending'', ''role'' \<mapsto> JStr ''member'',
              ''email'' \<mapsto> JStr ''pat@example.com'', ''createdBy'' \<mapsto> JStr ''owner1'']"

definition dbA :: "path \<rightharpoonup> doc" where
  "dbA = [token_path ''orgA'' ''tok123'' \<mapsto> [''inviteId'' \<mapsto> JStr ''inv1''],
          invite_path ''orgA'' ''inv1'' \<mapsto> inviteA,
          user_path ''u1'' \<mapsto> [''firstName'' \<mapsto> JStr ''Pat'', ''lastName'' \<mapsto> JStr ''Lee''],
          org_path ''orgA'' \<mapsto> [''name'' \<mapsto> JStr ''Acme'']]"

definition staleLink :: string where
  "staleLink = ''/invite/old?org=orgB''"

definition worldA :: world where
  "worldA = \<lparr>db = dbA,
              ls = Some [''pendingInvitePath'' \<mapsto> staleLink, ''afterOnboardingNext'' \<mapsto> staleLink],
              scope = None, err = None, busy = True, completed = False, nav = None, trace = []\<rparr>"

definition inviteD :: doc where
  "inviteD = inviteA(''status'' \<mapsto> JStr ''accepted'')"

definition worldD :: world where
  "worldD = worldA\<lparr>db := dbA(invite_path ''orgA'' ''inv1'' \<mapsto> inviteD)\<rparr>"

definition userOther :: user where
  "userOther = \<lparr>uid = ''u2'', email = Some ''other@example.com'', displayName = None\<rparr>"

definition worldC :: world where
  "worldC = worldA\<lparr>db := dbA(user_path ''u1'' := None)\<rparr>"

definition worldGone :: world where
  "worldGone = worldA\<lparr>db := dbA(invite_path ''orgA'' ''inv1'' := None)\<rparr>"

definition worldMalformed :: world where
  "worldMalformed = worldA\<lparr>db := dbA(token_path ''orgA'' ''tok123'' \<mapsto> Map.empty)\<rparr>"

definition at_join :: "env \<Rightarrow> string \<Rightarrow> string \<Rightarrow> string \<Rightarrow> user \<Rightarrow> world \<Rightarrow> world" where
  "at_join e t g i u w = snd (profile_read e u (at_checks e t g i w))"

fun calls_at :: "step \<Rightarrow> event list \<Rightarrow> (call \<times> path \<times> bool) list" where
  "calls_at s [] = []"
| "calls_at s (Remote s' c p ok # evs) = (if s' = s then (c, p, ok) # calls_at s evs else calls_at s evs)"
| "calls_at s (Storage x ok # evs) = calls_at s evs"

definition scope_touch :: "(path \<rightharpoonup> doc) \<Rightarrow> (path \<rightharpoonup> doc) \<Rightarrow> bool" where
  "scope_touch D D' = (\<forall>p. D' p = D p \<or>
     (\<exists>x d. p = user_path x \<and> D' p = Some d \<and>
        (\<forall>k. k \<noteq> ''scope'' \<longrightarrow> d k = (case D p of None \<Rightarrow> None | Some d0 \<Rightarrow> d0 k))))"

definition claimed :: "env \<Rightarrow> string \<Rightarrow> string \<Rightarrow> doc \<Rightarrow> user \<Rightarrow> string \<Rightarrow> string \<Rightarrow> doc \<Rightarrow> world \<Rightarrow> world" where
  "claimed e g i iv u f l d w =
     log (Remote Claim (UpdateDoc (payload (claim_obj e iv u f l))) (invite_path g i) True)
       (w\<lparr>db := (db w)(invite_path g i \<mapsto> d ++ payload (claim_obj e iv u f l))\<rparr>)"

definition membered :: "env \<Rightarrow> string \<Rightarrow> string \<Rightarrow> doc \<Rightarrow> user \<Rightarrow> string \<Rightarrow> string \<Rightarrow> world \<Rightarrow> world" where
  "membered e g i iv u f l w =
     log (Remote CreateMember (SetDoc (payload (member_obj e iv u f l i)) False) (member_path g (uid u)) True)
       (w\<lparr>db := (db w)(member_path g (uid u) \<mapsto> payload (member_obj e iv u f l i))\<rparr>)"

definition org_name_read :: "env \<Rightarrow> string \<Rightarrow> world \<Rightarrow> jsval" where
  "org_name_read e g w = org_name (fst (org_read e g w))"

definition indexed :: "env \<Rightarrow> string \<Rightarrow> doc \<Rightarrow> user \<Rightarrow> world \<Rightarrow> world" where
  "indexed e g iv u w =
     log (Remote Index (SetDoc (payload (index_obj e iv g (org_name_read e g w))) True)
            (membership_path (uid u) g) True)
       ((snd (org_read e g w))
          \<lparr>db := (db w)(membership_path (uid u) g \<mapsto>
              (case db w (membership_path (uid u) g) of
                 None \<Rightarrow> payload (index_obj e iv g (org_name_read e g w))
               | Some old \<Rightarrow> merge_doc old (payload (index_obj e iv g (org_name_read e g w)))))\<rparr>)"

definition claim_ok :: "env \<Rightarrow> doc \<Rightarrow> bool" where
  "claim_ok e iv = (rejects e Claim = None \<and> (field iv ''createdBy'' = JUndefined \<longrightarrow> ignore_undefined e))"

definition deleted :: "env \<Rightarrow> string \<Rightarrow> string \<Rightarrow> world \<Rightarrow> world" where
  "deleted e g i w =
     (if rejects e DeleteInvite = None
      then log (Remote DeleteInvite DeleteDoc (invite_path g i) True) (w\<lparr>db := (db w)(invite_path g i := None)\<rparr>)
      else log (Remote DeleteInvite DeleteDoc (invite_path g i) False) w)"

definition scope_ok :: "env \<Rightarrow> string \<Rightarrow> (path \<rightharpoonup> doc) \<Rightarrow> bool" where
  "scope_ok e g D = (g \<noteq> [] \<and> (case provider_user e of
       None \<Rightarrow> True
     | Some pu \<Rightarrow> valid_ref [''users'', pu] \<and>
         ((rejects e ScopeUpdate = None \<and> D (user_path pu) \<noteq> None) \<or> rejects e ScopeSet = None)))"

definition is_claim_call :: "env \<Rightarrow> user \<Rightarrow> call \<Rightarrow> bool" where
  "is_claim_call e u c = (\<exists>iv f l. c = UpdateDoc (payload (claim_obj e iv u f l)))"

definition claim_calls_ok :: "env \<Rightarrow> user \<Rightarrow> event list \<Rightarrow> bool" where
  "claim_calls_ok e u tr = list_all (\<lambda>x. is_claim_call e u (fst x)) (calls_at Claim tr)"

definition index_world :: "env \<Rightarrow> string \<Rightarrow> string \<Rightarrow> doc \<Rightarrow> user \<Rightarrow> string \<Rightarrow> string \<Rightarrow> doc \<Rightarrow> world \<Rightarrow> world" where
  "index_world e g i iv u f l d w = indexed e g iv u (membered e g i iv u f l (claimed e g i iv u f l d w))"

definition envFlaky :: env where
  "envFlaky = envA\<lparr>rejects := (\<lambda>s. if s = ReadOrg \<or> s = DeleteInvite then Some ''unavailable'' else None)\<rparr>"

section \<open>Properties of the operations\<close>

lemma log_simps [simp]:
  "trace (log ev w) = trace w @ [ev]" "db (log ev w) = db w" "ls (log ev w) = ls w"
  "scope (log ev w) = scope w" "err (log ev w) = err w" "busy (log ev w) = busy w"
  "completed (log ev w) = completed w" "nav (log ev w) = nav w"
  by (simp_all add: log_def)

lemma writes_append [simp]: "writes (xs @ ys) = writes xs @ writes ys"
  by (induction xs rule: writes.induct) simp_all

lemma remote_calls_append [simp]: "remote_calls (xs @ ys) = remote_calls xs @ remote_calls ys"
  by (induction xs rule: remote_calls.induct) simp_all

lemma storage_calls_append [simp]: "storage_calls (xs @ ys) = storage_calls xs @ storage_calls ys"
  by (induction xs rule: storage_calls.induct) simp_all

lemma try_ls_frame [simp]:
  "db (try_ls e ops w) = db w" "scope (try_ls e ops w) = scope w" "err (try_ls e ops w) = err w"
  "busy (try_ls e ops w) = busy w" "completed (try_ls e ops w) = completed w" "nav (try_ls e ops w) = nav w"
  "remote_calls (trace (try_ls e ops w)) = remote_calls (trace w)"
  "writes (trace (try_ls e ops w)) = writes (trace w)"
  by (induction e ops w rule: try_ls.induct; simp split: option.splits)+

lemma clear_pointers_frame [simp]:
  "db (clear_pointers e w) = db w" "scope (clear_pointers e w) = scope w" "err (clear_pointers e w) = err w"
  "busy (clear_pointers e w) = busy w" "completed (clear_pointers e w) = completed w"
  "nav (clear_pointers e w) = nav w"
  "remote_calls (trace (clear_pointers e w)) = remote_calls (trace w)"
  "writes (trace (clear_pointers e w)) = writes (trace w)"
  by (simp_all add: clear_pointers_def del: try_ls.simps)

lemma stash_frame [simp]:
  "db (stash e ip w) = db w" "scope (stash e ip w) = scope w" "err (stash e ip w) = err w"
  "busy (stash e ip w) = busy w" "completed (stash e ip w) = completed w"
  "nav (stash e ip w) = nav w"
  "remote_calls (trace (stash e ip w)) = remote_calls (trace w)"
  "writes (trace (stash e ip w)) = writes (trace w)"
  by (simp_all add: stash_def del: try_ls.simps)

lemma pointers_cleared_ls: "ls w' = ls w \<Longrightarrow> pointers_cleared w' = pointers_cleared w"
  by (simp add: pointers_cleared_def getItem_def)

lemma pointers_cleared_upd [simp]:
  "pointers_cleared (w\<lparr>busy := b\<rparr>) = pointers_cleared w"
  "pointers_cleared (w\<lparr>err := x\<rparr>) = pointers_cleared w"
  "pointers_cleared (w\<lparr>nav := n\<rparr>) = pointers_cleared w"
  "pointers_cleared (w\<lparr>completed := c\<rparr>) = pointers_cleared w"
  "pointers_cleared (w\<lparr>db := d\<rparr>) = pointers_cleared w"
  "pointers_cleared (w\<lparr>scope := s\<rparr>) = pointers_cleared w"
  "pointers_cleared (w\<lparr>trace := t\<rparr>) = pointers_cleared w"
  "pointers_cleared (log ev w) = pointers_cleared w"
  by (simp_all add: pointers_cleared_def getItem_def)

lemma clear_pointers_cleared [simp]: "pointers_cleared (clear_pointers e w)"
  by (simp add: pointers_cleared_def clear_pointers_def getItem_def PENDING_INVITE_KEY_def AFTER_ONBOARDING_NEXT_def
      split: option.splits)

lemma clear_pointers_storage:
  "storage_calls (trace (clear_pointers e w)) = storage_calls (trace w) @
     (case ls w of None \<Rightarrow> [(RemoveItemOp PENDING_INVITE_KEY, False)]
      | Some m \<Rightarrow> [(RemoveItemOp PENDING_INVITE_KEY, True), (RemoveItemOp AFTER_ONBOARDING_NEXT, True)])"
  by (simp add: clear_pointers_def split: option.splits)



lemma segments_literal [simp]:
  "segments ''orgs'' = [''orgs'']" "segments ''users'' = [''users'']"
  "segments ''inviteTokens'' = [''inviteTokens'']" "segments ''invites'' = [''invites'']"
  "segments ''members'' = [''members'']" "segments ''orgMemberships'' = [''orgMemberships'']"
  by code_simp+

lemma double_slash_literal [simp]:
  "\<not> double_slash ''orgs''" "\<not> double_slash ''users''" "\<not> double_slash ''inviteTokens''"
  "\<not> double_slash ''invites''" "\<not> double_slash ''members''" "\<not> double_slash ''orgMemberships''"
  by code_simp+

lemma path_eqs:
  "token_path g t = ''orgs'' # segments g @ ''inviteTokens'' # segments t"
  "invite_path g i = ''orgs'' # segments g @ ''invites'' # segments i"
  "member_path g y = ''orgs'' # segments g @ ''members'' # segments y"
  "membership_path y g = ''users'' # segments y @ ''orgMemberships'' # segments g"
  "user_path x = ''users'' # segments x"
  "org_path g = ''orgs'' # segments g"
  by (simp_all add: token_path_def invite_path_def member_path_def membership_path_def user_path_def
      org_path_def ref_path_def)

lemma ref_path_fold [simp]:
  "ref_path [''orgs'', g, ''inviteTokens'', t] = token_path g t"
  "ref_path [''orgs'', g, ''invites'', i] = invite_path g i"
  "ref_path [''orgs'', g, ''members'', y] = member_path g y"
  "ref_path [''users'', y, ''orgMemberships'', g] = membership_path y g"
  "ref_path [''users'', x] = user_path x"
  "ref_path [''orgs'', g] = org_path g"
  by (simp_all add: token_path_def invite_path_def member_path_def membership_path_def user_path_def
      org_path_def)

lemma doc_ref_valid: "valid_ref cs \<Longrightarrow> doc_ref e cs = Inr (ref_path cs)"
  by (simp add: doc_ref_def valid_ref_def)

lemma doc_ref_invalid: "\<not> valid_ref cs \<Longrightarrow> \<exists>m. doc_ref e cs = Inl m"
  by (auto simp add: doc_ref_def valid_ref_def)

lemma doc_ref_Inr: "doc_ref e cs = Inr p \<Longrightarrow> valid_ref cs \<and> p = ref_path cs"
  by (auto simp add: doc_ref_def valid_ref_def split: if_splits)

lemma doc_ref_Inl: "doc_ref e cs = Inl m \<Longrightarrow> \<not> valid_ref cs"
  by (auto simp add: doc_ref_def valid_ref_def split: if_splits)

lemma valid_index_ref [simp]:
  "valid_ref [''users'', y, ''orgMemberships'', g] = valid_ref [''orgs'', g, ''members'', y]"
  by (auto simp add: valid_ref_def ref_path_def)

lemma path_neq [simp]:
  "user_path x \<noteq> invite_path g i" "user_path x \<noteq> member_path g y"
  "user_path x \<noteq> token_path g t" "user_path x \<noteq> org_path g"
  "invite_path g i \<noteq> user_path x" "member_path g y \<noteq> user_path x"
  "token_path g t \<noteq> user_path x" "org_path g \<noteq> user_path x"
  "user_path x \<noteq> membership_path x g" "membership_path x g \<noteq> user_path x"
  "invite_path g i \<noteq> member_path g y" "invite_path g i \<noteq> membership_path y g'"
  "invite_path g i \<noteq> token_path g t" "invite_path g i \<noteq> org_path g"
  "member_path g y \<noteq> invite_path g i" "member_path g y \<noteq> membership_path z g'"
  "member_path g y \<noteq> token_path g t" "member_path g y \<noteq> org_path g"
  "membership_path y g \<noteq> invite_path g' i" "membership_path y g \<noteq> member_path g' z"
  "membership_path y g \<noteq> token_path g' t" "membership_path y g \<noteq> org_path g'"
  "token_path g t \<noteq> invite_path g i" "token_path g t \<noteq> member_path g y"
  "token_path g t \<noteq> membership_path y g'" "token_path g t \<noteq> org_path g"
  "org_path g \<noteq> invite_path g i" "org_path g \<noteq> member_path g y"
  "org_path g \<noteq> membership_path y g'" "org_path g \<noteq> token_path g t"
  by (simp_all add: path_eqs)

lemma get_doc_eq:
  "get_doc e s p w =
     ((case rejects e s of Some m \<Rightarrow> Inl m | None \<Rightarrow> Inr (db w p)),
      log (Remote s GetDoc p (rejects e s = None)) w)"
  by (cases "rejects e s") (simp_all add: get_doc_def)

lemma profile_read_valid:
  "valid_ref [''users'', uid u] \<Longrightarrow> profile_read e u w = get_doc e ReadProfile (user_path (uid u)) w"
  by (simp add: profile_read_def doc_ref_valid)

lemma profile_read_frame [simp]:
  "db (snd (profile_read e u w)) = db w" "ls (snd (profile_read e u w)) = ls w"
  "scope (snd (profile_read e u w)) = scope w" "err (snd (profile_read e u w)) = err w"
  "busy (snd (profile_read e u w)) = busy w" "completed (snd (profile_read e u w)) = completed w"
  "nav (snd (profile_read e u w)) = nav w"
  "writes (trace (snd (profile_read e u w))) = writes (trace w)"
  "storage_calls (trace (snd (profile_read e u w))) = storage_calls (trace w)"
  by (simp_all add: profile_read_def get_doc_eq split: sum.splits)

lemma profile_read_cong: "db w' = db w \<Longrightarrow> fst (profile_read e u w') = fst (profile_read e u w)"
  by (simp add: profile_read_def get_doc_eq split: sum.splits option.splits)

lemma org_read_frame [simp]:
  "db (snd (org_read e g w)) = db w" "ls (snd (org_read e g w)) = ls w"
  "scope (snd (org_read e g w)) = scope w" "err (snd (org_read e g w)) = err w"
  "busy (snd (org_read e g w)) = busy w" "completed (snd (org_read e g w)) = completed w"
  "nav (snd (org_read e g w)) = nav w"
  "writes (trace (snd (org_read e g w))) = writes (trace w)"
  "storage_calls (trace (snd (org_read e g w))) = storage_calls (trace w)"
  by (simp_all add: org_read_def get_doc_eq split: sum.splits)

lemma org_read_cong:
  "db w' (org_path g) = db w (org_path g) \<Longrightarrow> fst (org_read e g w') = fst (org_read e g w)"
  by (auto simp add: org_read_def get_doc_eq split: sum.splits option.splits dest!: doc_ref_Inr)

lemma invitePath_nonempty: "t \<noteq> [] \<Longrightarrow> orgId \<noteq> [] \<Longrightarrow> invitePath (Some t) orgId \<noteq> []"
  by (simp add: invitePath_def)

lemma at_callback_frame [simp]:
  "db (at_callback e t orgId w) = db w" "scope (at_callback e t orgId w) = scope w"
  "err (at_callback e t orgId w) = None" "busy (at_callback e t orgId w) = busy w"
  "completed (at_callback e t orgId w) = completed w" "nav (at_callback e t orgId w) = nav w"
  "remote_calls (trace (at_callback e t orgId w)) = [(ReadToken, token_path orgId t, True)]"
  "writes (trace (at_callback e t orgId w)) = []"
  by (simp_all add: at_callback_def)

lemma at_checks_frame [simp]:
  "db (at_checks e t orgId i w) = db w" "scope (at_checks e t orgId i w) = scope w"
  "completed (at_checks e t orgId i w) = completed w" "nav (at_checks e t orgId i w) = nav w"
  "ls (at_checks e t orgId i w) = ls (at_callback e t orgId w)"
  "remote_calls (trace (at_checks e t orgId i w)) =
     [(ReadToken, token_path orgId t, True), (ReadInvite, invite_path orgId i, True)]"
  "writes (trace (at_checks e t orgId i w)) = []"
  "storage_calls (trace (at_checks e t orgId i w)) = storage_calls (trace (at_callback e t orgId w))"
  by (simp_all add: at_checks_def)

lemma run_at_callback:
  assumes "t \<noteq> []" "orgId \<noteq> []" "valid_ref [''orgs'', orgId, ''inviteTokens'', t]"
    "rejects e ReadToken = None" "db w (token_path orgId t) = Some tok"
  shows "accept_invite e (Some t) (Some orgId) usr w =
           on_auth e orgId tok (invitePath (Some t) orgId) usr (at_callback e t orgId w)"
  using assms by (simp add: accept_invite_def doc_ref_valid get_doc_def at_callback_def Let_def)

lemma run_at_checks:
  assumes "invite_resolved e t orgId w i iv"
  shows "accept_invite e (Some t) (Some orgId) (Some u) w =
           finish (checks e orgId i iv (invitePath (Some t) orgId) u (at_checks e t orgId i w))"
proof -
  from assms obtain tok where tok: "db w (token_path orgId t) = Some tok" "field tok ''inviteId'' = JStr i"
    and ne: "t \<noteq> []" "orgId \<noteq> []" "i \<noteq> []"
    and vt: "valid_ref [''orgs'', orgId, ''inviteTokens'', t]"
    and vi: "valid_ref [''orgs'', orgId, ''invites'', i]"
    and ok: "rejects e ReadToken = None" "rejects e ReadInvite = None"
    and iv: "db w (invite_path orgId i) = Some iv"
    by (auto simp add: invite_resolved_def split: option.splits)
  show ?thesis
    by (simp add: run_at_callback [OF ne(1,2) vt ok(1) tok(1)] on_auth_def resolve_def tok ne
        doc_ref_valid [OF vi] get_doc_def ok iv at_checks_def)
qed
lemma stash_storage:
  assumes "ip \<noteq> []"
  shows "storage_calls (trace (stash e ip w)) = storage_calls (trace w) @
     (case ls w of None \<Rightarrow> [(SetItemOp PENDING_INVITE_KEY ip, False)]
      | Some m \<Rightarrow> if set_throws e PENDING_INVITE_KEY then [(SetItemOp PENDING_INVITE_KEY ip, False)]
          else if set_throws e AFTER_ONBOARDING_NEXT
          then [(SetItemOp PENDING_INVITE_KEY ip, True), (SetItemOp AFTER_ONBOARDING_NEXT ip, False)]
          else [(SetItemOp PENDING_INVITE_KEY ip, True), (SetItemOp AFTER_ONBOARDING_NEXT ip, True)])"
  using assms by (simp add: stash_def split: option.splits)

lemma stash_ls:
  assumes "ip \<noteq> []"
  shows "ls (stash e ip w) =
     (case ls w of None \<Rightarrow> None
      | Some m \<Rightarrow> if set_throws e PENDING_INVITE_KEY then Some m
          else if set_throws e AFTER_ONBOARDING_NEXT then Some (m(PENDING_INVITE_KEY \<mapsto> ip))
          else Some (m(PENDING_INVITE_KEY \<mapsto> ip, AFTER_ONBOARDING_NEXT \<mapsto> ip)))"
  using assms by (simp add: stash_def split: option.splits)

lemma at_callback_stashed:
  assumes "t \<noteq> []" "orgId \<noteq> []" "ls w \<noteq> None"
    "\<not> set_throws e PENDING_INVITE_KEY" "\<not> set_throws e AFTER_ONBOARDING_NEXT"
  shows "getItem (at_callback e t orgId w) PENDING_INVITE_KEY = Some (invitePath (Some t) orgId)"
    and "getItem (at_callback e t orgId w) AFTER_ONBOARDING_NEXT = Some (invitePath (Some t) orgId)"
  using assms
  by (auto simp add: at_callback_def getItem_def stash_ls invitePath_nonempty
      PENDING_INVITE_KEY_def AFTER_ONBOARDING_NEXT_def)

lemma at_callback_storage_sets:
  assumes "t \<noteq> []" "orgId \<noteq> []"
  shows "filter (\<lambda>c. \<not> is_set_item c) (storage_calls (trace (at_callback e t orgId w))) = []"
  using assms by (simp add: at_callback_def stash_storage invitePath_nonempty split: option.splits)


lemma get_doc_spec:
  "get_doc e s p w = (r, w') \<Longrightarrow>
     w' = log (Remote s GetDoc p (rejects e s = None)) w \<and>
     r = (case rejects e s of Some m \<Rightarrow> Inl m | None \<Rightarrow> Inr (db w p))"
  by (auto simp add: get_doc_def split: option.splits)

lemma update_doc_Inl:
  "update_doc e s p ob w = (Inl m, w') \<Longrightarrow>
     w' = w \<or> w' = log (Remote s (UpdateDoc (payload ob)) p False) w"
  by (auto simp add: update_doc_def split: option.splits if_splits)

lemma update_doc_Inr:
  "update_doc e s p ob w = (Inr x, w') \<Longrightarrow>
     (\<exists>d. db w p = Some d \<and>
        w' = log (Remote s (UpdateDoc (payload ob)) p True) (w\<lparr>db := (db w)(p \<mapsto> d ++ payload ob)\<rparr>)) \<and>
     rejects e s = None \<and> (has_undefined ob \<longrightarrow> ignore_undefined e)"
  by (auto simp add: update_doc_def split: option.splits if_splits)

lemma set_doc_Inl:
  "set_doc e s p ob mg w = (Inl m, w') \<Longrightarrow>
     w' = w \<or> w' = log (Remote s (SetDoc (payload ob) mg) p False) w"
  by (auto simp add: set_doc_def split: option.splits if_splits)

lemma set_doc_Inr:
  "set_doc e s p ob mg w = (Inr x, w') \<Longrightarrow>
     w' = log (Remote s (SetDoc (payload ob) mg) p True)
            (w\<lparr>db := (db w)(p \<mapsto> (case db w p of None \<Rightarrow> payload ob
                 | Some old \<Rightarrow> if mg then merge_doc old (payload ob) else payload ob))\<rparr>) \<and>
     rejects e s = None \<and> (has_undefined ob \<longrightarrow> ignore_undefined e)"
  by (auto simp add: set_doc_def Let_def split: option.splits if_splits)

lemma delete_doc_spec:
  "delete_doc e s p w = (r, w') \<Longrightarrow>
     (rejects e s = None \<and> w' = log (Remote s DeleteDoc p True) (w\<lparr>db := (db w)(p := None)\<rparr>)) \<or>
     (rejects e s \<noteq> None \<and> w' = log (Remote s DeleteDoc p False) w)"
  by (auto simp add: delete_doc_def split: option.splits)

lemma setOrg_writes:
  "setOrg e orgId n w = (r, w') \<Longrightarrow>
     \<exists>rest. writes (trace w') = writes (trace w) @ rest \<and> (\<forall>x\<in>set rest. fst x \<in> {ScopeUpdate, ScopeSet})"
  by (cases "doc_ref e [''users'', the (provider_user e)]")
     (auto simp add: setOrg_def Let_def update_doc_def set_doc_def
      split: option.splits if_splits prod.splits sum.splits)

lemma setOrg_writes':
  "setOrg e orgId n w = (r, w') \<Longrightarrow> \<exists>rest. writes (trace w') = writes (trace w) @ rest \<and> scope_only rest"
  unfolding scope_only_def by (rule setOrg_writes)

lemma finalise_writes:
  assumes "finalise e orgId i n w = (r, w')"
  shows "\<exists>b rest. writes (trace w') = writes (trace w) @ (DeleteInvite, invite_path orgId i, b) # rest \<and> scope_only rest"
proof -
  define w1 where "w1 = snd (delete_doc e DeleteInvite (invite_path orgId i) w)"
  define w2 where "w2 = clear_pointers e w1"
  obtain r3 w3 where s: "setOrg e orgId n w2 = (r3, w3)" by (cases "setOrg e orgId n w2")
  from setOrg_writes' [OF s] obtain rest where
    rest: "writes (trace w3) = writes (trace w2) @ rest" "scope_only rest" by blast
  have w1: "writes (trace w1) = writes (trace w) @ [(DeleteInvite, invite_path orgId i, rejects e DeleteInvite = None)]"
    by (simp add: w1_def delete_doc_def split: option.splits)
  have "writes (trace w') = writes (trace w3)"
    using assms s by (auto simp add: finalise_def Let_def w1_def w2_def split: sum.splits if_splits)
  then show ?thesis using rest w1 by (auto simp add: w2_def)
qed

lemma coalesce_defined [simp]: "b \<noteq> JUndefined \<Longrightarrow> coalesce a b \<noteq> JUndefined"
  by (simp add: coalesce_def nullish_def)

lemma js_of_defined [simp]: "js_of s \<noteq> JUndefined"
  by (simp add: js_of_def split: option.splits)

lemma role_of_defined [simp]: "role_of iv \<noteq> JUndefined"
  by (simp add: role_of_def)

lemma org_name_defined [simp]: "org_name r \<noteq> JUndefined"
  by (auto simp add: org_name_def split: sum.splits option.splits)

lemma no_undefined_member [simp]: "\<not> has_undefined (member_obj e iv u f l i)"
  using js_of_defined [of "email u"] role_of_defined [of iv]
  by (simp add: has_undefined_def member_obj_def eq_commute del: js_of_defined role_of_defined)

lemma no_undefined_index [simp]: "\<not> has_undefined (index_obj e iv g (org_name r))"
  using org_name_defined [of r] role_of_defined [of iv]
  by (simp add: has_undefined_def index_obj_def eq_commute del: org_name_defined role_of_defined)

lemma set_doc_defined:
  "\<not> has_undefined ob \<Longrightarrow> set_doc e s p ob mg w =
     (case rejects e s of
        Some m \<Rightarrow> (Inl m, log (Remote s (SetDoc (payload ob) mg) p False) w)
      | None \<Rightarrow> (Inr (), log (Remote s (SetDoc (payload ob) mg) p True)
            (w\<lparr>db := (db w)(p \<mapsto> (case db w p of None \<Rightarrow> payload ob
                 | Some old \<Rightarrow> if mg then merge_doc old (payload ob) else payload ob))\<rparr>)))"
  by (simp add: set_doc_def Let_def split: option.splits)

lemma reverse_index_writes:
  assumes "reverse_index e orgId i iv u w = (r, w')" "valid_ref [''orgs'', orgId, ''members'', uid u]"
  shows "writes (trace w') = writes (trace w) @ [(Index, membership_path (uid u) orgId, False)] \<or>
     (\<exists>b rest. writes (trace w') = writes (trace w) @
        (Index, membership_path (uid u) orgId, True) # (DeleteInvite, invite_path orgId i, b) # rest \<and>
        scope_only rest)"
proof -
  obtain r1 w1 where o: "org_read e orgId w = (r1, w1)" by (cases "org_read e orgId w")
  have w1: "writes (trace w1) = writes (trace w)"
    using org_read_frame(8) [of e orgId w] by (simp add: o)
  have v: "doc_ref e [''users'', uid u, ''orgMemberships'', orgId] = Inr (membership_path (uid u) orgId)"
    using assms(2) by (simp add: doc_ref_valid)
  show ?thesis
    using assms(1) w1
    by (auto simp add: reverse_index_def o v set_doc_defined Let_def
        split: option.splits dest!: finalise_writes)
qed

lemma create_member_writes:
  assumes "create_member e orgId i iv u f l w = (r, w')"
  shows "(writes (trace w') = writes (trace w) \<and> \<not> valid_ref [''orgs'', orgId, ''members'', uid u]) \<or>
     writes (trace w') = writes (trace w) @ [(CreateMember, member_path orgId (uid u), False)] \<or>
     writes (trace w') = writes (trace w) @ [(CreateMember, member_path orgId (uid u), True),
          (Index, membership_path (uid u) orgId, False)] \<or>
     (\<exists>b rest. writes (trace w') = writes (trace w) @
        (CreateMember, member_path orgId (uid u), True) #
        (Index, membership_path (uid u) orgId, True) # (DeleteInvite, invite_path orgId i, b) # rest \<and>
        scope_only rest)"
proof (cases "valid_ref [''orgs'', orgId, ''members'', uid u]")
  case True
  show ?thesis
    using assms
    by (auto simp add: create_member_def doc_ref_valid [OF True] set_doc_defined
        split: option.splits dest!: reverse_index_writes [OF _ True])
next
  case False
  from doc_ref_invalid [OF this] obtain m where "doc_ref e [''orgs'', orgId, ''members'', uid u] = Inl m"
    by blast
  with assms False show ?thesis by (simp add: create_member_def)
qed

lemma join_writes:
  assumes "join e orgId i iv u f l w = (r, w')" "writes (trace w) = []"
  shows "write_order orgId i (uid u) (writes (trace w'))"
  using assms
  by (auto simp add: join_def scope_only_def list_all_iff
      dest!: update_doc_Inl update_doc_Inr create_member_writes split: sum.splits prod.splits)

lemma checks_writes:
  assumes "checks e orgId i iv ip u w = (r, w')" "writes (trace w) = []"
  shows "write_order orgId i (uid u) (writes (trace w'))"
proof -
  obtain r1 w1 where p: "profile_read e u w = (r1, w1)" by (cases "profile_read e u w")
  have w1: "writes (trace w1) = []"
    using profile_read_frame(8) [of e u w] assms(2) by (simp add: p)
  show ?thesis
    using assms(1) w1 assms(2)
    by (auto simp add: checks_def fail_def p simp del: try_ls.simps
        split: if_splits option.splits prod.splits dest: join_writes)
qed

lemma resolve_writes:
  assumes "resolve e orgId tok ip u w = (r, w')" "writes (trace w) = []"
  shows "\<exists>i. write_order orgId i (uid u) (writes (trace w'))"
  using assms
  by (auto simp add: resolve_def fail_def get_doc_def
      split: if_splits option.splits jsval.splits sum.splits dest: checks_writes intro: exI [of _ "[]"])

lemma on_auth_writes:
  assumes "on_auth e orgId tok ip usr w = (out, w')" "writes (trace w) = []"
  shows "\<exists>i. write_order orgId i (case usr of None \<Rightarrow> [] | Some u \<Rightarrow> uid u) (writes (trace w'))"
proof (cases usr)
  case None
  with assms show ?thesis by (auto simp add: on_auth_def)
next
  case (Some u)
  obtain r w1 where r: "resolve e orgId tok ip u (w\<lparr>busy := True\<rparr>) = (r, w1)"
    by (cases "resolve e orgId tok ip u (w\<lparr>busy := True\<rparr>)")
  from resolve_writes [OF r] assms(2) obtain i where "write_order orgId i (uid u) (writes (trace w1))"
    by auto
  moreover have "trace w' = trace w1"
    using assms(1) Some r by (auto simp add: on_auth_def finish_def Let_def split: sum.splits)
  ultimately show ?thesis using Some by auto
qed
lemma trim_Nil [simp]: "trim [] = []"
  by (simp add: trim_def)

lemma toLowerCase_Nil [simp]: "(toLowerCase s = []) = (s = [])"
  by (simp add: toLowerCase_def)

lemma finalise_outcome:
  "finalise e g i n w = (Inr out, w') \<Longrightarrow> out = Joined n"
  by (auto simp add: finalise_def Let_def split: prod.splits sum.splits)

lemma reverse_index_outcome:
  "reverse_index e g i iv u w = (Inr out, w') \<Longrightarrow> \<exists>n. out = Joined n"
  by (auto simp add: reverse_index_def Let_def split: prod.splits sum.splits dest: finalise_outcome)

lemma create_member_outcome:
  "create_member e g i iv u f l w = (Inr out, w') \<Longrightarrow> \<exists>n. out = Joined n"
  by (auto simp add: create_member_def split: prod.splits sum.splits dest: reverse_index_outcome)

lemma join_outcome:
  "join e g i iv u f l w = (Inr out, w') \<Longrightarrow> \<exists>n. out = Joined n"
  by (auto simp add: join_def split: prod.splits sum.splits dest: create_member_outcome)

lemma finish_join_not_Failed:
  "finish (join e g i iv u f l w) = (out, w') \<Longrightarrow> out \<noteq> Failed m"
  by (cases "join e g i iv u f l w")
     (auto simp add: finish_def Let_def split: sum.splits dest: join_outcome)

lemma resolved_names_cong: "db w' = db w \<Longrightarrow> resolved_names e u w' = resolved_names e u w"
  using profile_read_cong [of w' w e u] by (simp add: resolved_names_def)

lemma resolved_names_at_checks [simp]: "resolved_names e u (at_checks e t g i w) = resolved_names e u w"
  by (rule resolved_names_cong) simp

lemma checks_passed:
  assumes "status_open iv" "\<not> email_mismatch iv u"
  shows "checks e g i iv ip u w =
    (case resolved_names e u w of
       (Some f, Some l) \<Rightarrow> join e g i iv u f l (snd (profile_read e u w))
     | _ \<Rightarrow> (Inr ToOnboarding,
          (try_ls e [SetItemOp AFTER_ONBOARDING_NEXT ip] (snd (profile_read e u w)))
          \<lparr>nav := Some (Nav ''/onboarding'' None)\<rparr>))"
proof -
  obtain a b where p: "profile_read e u w = (a, b)" by (cases "profile_read e u w")
  have st: "(truthy (field iv ''status'') \<and> field iv ''status'' \<noteq> JStr ''pending'') = False"
    using assms(1) by (auto simp add: status_open_def)
  show ?thesis
    unfolding checks_def resolved_names_def p fst_conv snd_conv prod.case st
    using assms(2) by (simp del: try_ls.simps)
qed

lemma checks_passed_outcome:
  assumes "status_open iv" "\<not> email_mismatch iv u" "finish (checks e g i iv ip u w) = (out, w')"
  shows "out \<noteq> Failed m"
proof -
  obtain a b where names: "resolved_names e u w = (a, b)"
    by (cases "resolved_names e u w")
  show ?thesis
  proof (cases "\<exists>f l. a = Some f \<and> b = Some l")
    case True
    then obtain f l where "a = Some f" "b = Some l" by blast
    with assms(3) names have "finish (join e g i iv u f l (snd (profile_read e u w))) = (out, w')"
      by (simp add: checks_passed [OF assms(1,2)] del: try_ls.simps)
    then show ?thesis by (rule finish_join_not_Failed)
  next
    case False
    with names have "fst (checks e g i iv ip u w) = Inr ToOnboarding"
      by (cases a; cases b; simp add: checks_passed [OF assms(1,2)] del: try_ls.simps)
    with assms(3) show ?thesis
      by (cases "checks e g i iv ip u w") (auto simp add: finish_def)
  qed
qed

lemma at_callback_ls_some: "ls w = Some m \<Longrightarrow> \<exists>m'. ls (at_callback e t g w) = Some m'"
  by (auto simp add: at_callback_def stash_def split: option.splits)

lemma paths_A:
  "token_path ''orgA'' ''tok123'' = [''orgs'', ''orgA'', ''inviteTokens'', ''tok123'']"
  "invite_path ''orgA'' ''inv1'' = [''orgs'', ''orgA'', ''invites'', ''inv1'']"
  "member_path ''orgA'' ''u1'' = [''orgs'', ''orgA'', ''members'', ''u1'']"
  "membership_path ''u1'' ''orgA'' = [''users'', ''u1'', ''orgMemberships'', ''orgA'']"
  "user_path ''u1'' = [''users'', ''u1'']" "user_path ''u2'' = [''users'', ''u2'']"
  "org_path ''orgA'' = [''orgs'', ''orgA'']"
  by code_simp+

lemma valid_A:
  "valid_ref [''orgs'', ''orgA'', ''inviteTokens'', ''tok123'']"
  "valid_ref [''orgs'', ''orgA'', ''invites'', ''inv1'']"
  "valid_ref [''orgs'', ''orgA'', ''members'', ''u1'']"
  "valid_ref [''users'', ''u1'']" "valid_ref [''users'', ''u2'']"
  "valid_ref [''orgs'', ''orgA'']"
  by code_simp+

lemmas scenario_defs = envA_def userPat_def inviteA_def dbA_def worldA_def inviteD_def worldD_def
  userOther_def worldC_def worldGone_def worldMalformed_def paths_A

lemma resolved_A: "invite_resolved envA ''tok123'' ''orgA'' worldA ''inv1'' inviteA"
  by (simp add: invite_resolved_def scenario_defs valid_A field_def)

lemma resolved_D: "invite_resolved envA ''tok123'' ''orgA'' worldD ''inv1'' inviteD"
  by (simp add: invite_resolved_def scenario_defs valid_A field_def)

lemma resolved_C: "invite_resolved envA ''tok123'' ''orgA'' worldC ''inv1'' inviteA"
  by (simp add: invite_resolved_def scenario_defs valid_A field_def)

lemma lower_other: "toLowerCase (trim ''other@example.com'') = ''other@example.com''"
  by code_simp

lemma lower_pat: "toLowerCase (trim ''pat@example.com'') = ''pat@example.com''"
  by code_simp

lemma lower_Pat: "toLowerCase (trim ''Pat@Example.com'') = ''pat@example.com''"
  by code_simp

lemma names_C: "resolved_names envA userPat worldC = (None, None)"
  using valid_A(4)
  by (simp add: resolved_names_def profile_read_def doc_ref_valid get_doc_eq scenario_defs
      profile_names_def display_names_def or_null_def)

lemma no_mismatch_A: "\<not> email_mismatch inviteA userPat"
  by (simp add: email_mismatch_def inviteEmailLC_def myEmail_def inviteA_def userPat_def field_def coalesce_def
      nullish_def or_null_def js_of_def lower_pat lower_Pat)

lemma calls_at_append [simp]: "calls_at s (xs @ ys) = calls_at s xs @ calls_at s ys"
  by (induction s xs rule: calls_at.induct) simp_all

lemma try_ls_calls_at [simp]: "calls_at s (trace (try_ls e ops w)) = calls_at s (trace w)"
  by (induction e ops w rule: try_ls.induct; simp split: option.splits)

lemma try_ls_ls_some: "ls w = Some m \<Longrightarrow> \<exists>m'. ls (try_ls e ops w) = Some m'"
  by (induction e ops w arbitrary: m rule: try_ls.induct; simp split: option.splits)

lemma clear_pointers_calls_at [simp]: "calls_at s (trace (clear_pointers e w)) = calls_at s (trace w)"
  by (simp add: clear_pointers_def del: try_ls.simps)

lemma stash_calls_at [simp]: "calls_at s (trace (stash e ip w)) = calls_at s (trace w)"
  by (simp add: stash_def del: try_ls.simps)

lemma profile_read_calls_at [simp]:
  "s \<noteq> ReadProfile \<Longrightarrow> calls_at s (trace (snd (profile_read e u w))) = calls_at s (trace w)"
  by (simp add: profile_read_def get_doc_eq split: sum.splits)

lemma org_read_calls_at [simp]:
  "s \<noteq> ReadOrg \<Longrightarrow> calls_at s (trace (snd (org_read e g w))) = calls_at s (trace w)"
  by (simp add: org_read_def get_doc_eq split: sum.splits)

lemma scope_touch_refl [simp]: "scope_touch D D"
  by (simp add: scope_touch_def)

lemma scope_payload_defined [simp]:
  "\<not> has_undefined [(''scope'', JMap m)]"
  by (simp add: has_undefined_def)

lemma scope_touch_update:
  "D (user_path x) = Some d \<Longrightarrow> scope_touch D (D(user_path x \<mapsto> d ++ payload [(''scope'', v)]))"
  by (auto simp add: scope_touch_def payload_def map_add_def)

lemma scope_touch_set:
  "scope_touch D (D(user_path x \<mapsto> (case D (user_path x) of None \<Rightarrow> payload [(''scope'', v)]
       | Some old \<Rightarrow> merge_doc old (payload [(''scope'', v)]))))"
  by (auto simp add: scope_touch_def payload_def merge_doc_def split: option.splits)

lemma scope_touch_new:
  "D (user_path x) = None \<Longrightarrow> scope_touch D (D(user_path x \<mapsto> payload [(''scope'', v)]))"
  by (auto simp add: scope_touch_def payload_def)

lemma scope_touch_merge:
  "D (user_path x) = Some old \<Longrightarrow>
     scope_touch D (D(user_path x \<mapsto> merge_doc old (payload [(''scope'', v)])))"
  by (auto simp add: scope_touch_def payload_def merge_doc_def)

lemma setOrg_valid:
  assumes "provider_user e = Some pu" "valid_ref [''users'', pu]" "g \<noteq> []"
  shows "setOrg e g n w =
    (let ob = [(''scope'', JMap [(''mode'', JStr ''org''), (''orgId'', JStr g), (''orgName'', coalesce n JNull)])];
         w1 = w\<lparr>scope := Some (g, coalesce n JNull)\<rparr>
     in case update_doc e ScopeUpdate (user_path pu) ob w1 of
          (Inr x, w2) \<Rightarrow> (Inr (), w2)
        | (Inl m, w2) \<Rightarrow> set_doc e ScopeSet (user_path pu) ob True w2)"
  using assms by (simp add: setOrg_def Let_def doc_ref_valid split: prod.splits sum.splits)

lemma setOrg_invalid:
  assumes "provider_user e = Some pu" "\<not> valid_ref [''users'', pu]" "g \<noteq> []"
  shows "\<exists>m. setOrg e g n w = (Inl m, w\<lparr>scope := Some (g, coalesce n JNull)\<rparr>)"
proof -
  from doc_ref_invalid [OF assms(2)] obtain m where "doc_ref e [''users'', pu] = Inl m" by blast
  with assms(1,3) show ?thesis by (simp add: setOrg_def Let_def)
qed

lemma setOrg_spec:
  assumes "setOrg e g n w = (r, w')"
  shows "scope_touch (db w) (db w')" "ls w' = ls w" "err w' = err w" "busy w' = busy w"
    "completed w' = completed w" "nav w' = nav w"
    "calls_at s (trace w') = calls_at s (trace w) \<or> s = ScopeUpdate \<or> s = ScopeSet"
    "r = Inr x \<Longrightarrow> g \<noteq> [] \<and> scope w' = Some (g, coalesce n JNull)"
proof -
  have all: "scope_touch (db w) (db w') \<and> ls w' = ls w \<and> err w' = err w \<and> busy w' = busy w \<and>
    completed w' = completed w \<and> nav w' = nav w \<and>
    (calls_at s (trace w') = calls_at s (trace w) \<or> s = ScopeUpdate \<or> s = ScopeSet) \<and>
    (r = Inr x \<longrightarrow> g \<noteq> [] \<and> scope w' = Some (g, coalesce n JNull))"
  proof (cases "g = []")
    case True
    with assms show ?thesis by (auto simp add: setOrg_def)
  next
    case g: False
    show ?thesis
    proof (cases "provider_user e")
      case None
      with assms g show ?thesis by (auto simp add: setOrg_def Let_def)
    next
      case (Some pu)
      show ?thesis
      proof (cases "valid_ref [''users'', pu]")
        case True
        show ?thesis
          using assms g
          by (auto simp add: setOrg_valid [OF Some True g] Let_def update_doc_def set_doc_def
              scope_touch_update scope_touch_new scope_touch_merge
              split: option.splits if_splits prod.splits sum.splits)
      next
        case False
        from setOrg_invalid [OF Some False g, of n w] assms show ?thesis by auto
      qed
    qed
  qed
  from all show "scope_touch (db w) (db w')" "ls w' = ls w" "err w' = err w" "busy w' = busy w"
    "completed w' = completed w" "nav w' = nav w"
    "calls_at s (trace w') = calls_at s (trace w) \<or> s = ScopeUpdate \<or> s = ScopeSet"
    by simp_all
  from all show "g \<noteq> [] \<and> scope w' = Some (g, coalesce n JNull)" if "r = Inr x" using that by simp
qed

lemma setOrg_ok_iff:
  "(\<exists>w'. setOrg e g n w = (Inr (), w')) \<longleftrightarrow> scope_ok e g (db w)"
proof (cases "g = []")
  case True
  then show ?thesis by (simp add: setOrg_def scope_ok_def)
next
  case g: False
  show ?thesis
  proof (cases "provider_user e")
    case None
    with g show ?thesis by (simp add: setOrg_def scope_ok_def Let_def)
  next
    case (Some pu)
    show ?thesis
    proof (cases "valid_ref [''users'', pu]")
      case True
      show ?thesis
        using g
        by (auto simp add: setOrg_valid [OF Some True g] scope_ok_def Some True Let_def update_doc_def set_doc_def
            split: option.splits if_splits prod.splits sum.splits)
    next
      case False
      from setOrg_invalid [OF Some False g, of n w] show ?thesis
        by (auto simp add: scope_ok_def Some False)
    qed
  qed
qed
lemma has_undefined_claim [simp]:
  "has_undefined (claim_obj e iv u f l) = (field iv ''createdBy'' = JUndefined)"
  using js_of_defined [of "myEmail u"] role_of_defined [of iv]
    coalesce_defined [of "JStr ''pending''" "field iv ''status''"]
    coalesce_defined [of JNull "field iv ''email''"] coalesce_defined [of JNull "field iv ''phone''"]
  by (auto simp add: has_undefined_def claim_obj_def eq_commute
      simp del: js_of_defined role_of_defined coalesce_defined)

lemma join_Inr:
  assumes "join e g i iv u f l w = (Inr out, w')"
  shows "\<exists>d. db w (invite_path g i) = Some d \<and> claim_ok e iv \<and>
           create_member e g i iv u f l (claimed e g i iv u f l d w) = (Inr out, w')"
  using assms
  by (auto simp add: join_def claimed_def claim_ok_def dest!: update_doc_Inr split: prod.splits sum.splits)

lemma join_eq:
  assumes "db w (invite_path g i) = Some d" "claim_ok e iv"
  shows "join e g i iv u f l w = create_member e g i iv u f l (claimed e g i iv u f l d w)"
  using assms by (auto simp add: join_def claimed_def claim_ok_def update_doc_def)

lemma create_member_Inr:
  assumes "create_member e g i iv u f l w = (Inr out, w')"
  shows "valid_ref [''orgs'', g, ''members'', uid u] \<and> rejects e CreateMember = None \<and>
         reverse_index e g i iv u (membered e g i iv u f l w) = (Inr out, w')"
proof (cases "valid_ref [''orgs'', g, ''members'', uid u]")
  case True
  show ?thesis
    using assms True
    by (auto simp add: create_member_def doc_ref_valid [OF True] membered_def set_doc_defined
        split: option.splits)
next
  case False
  from doc_ref_invalid [OF this] obtain m where "doc_ref e [''orgs'', g, ''members'', uid u] = Inl m"
    by blast
  with assms show ?thesis by (simp add: create_member_def)
qed

lemma create_member_eq:
  assumes "valid_ref [''orgs'', g, ''members'', uid u]" "rejects e CreateMember = None"
  shows "create_member e g i iv u f l w = reverse_index e g i iv u (membered e g i iv u f l w)"
  using assms(2)
  by (auto simp add: create_member_def doc_ref_valid [OF assms(1)] membered_def set_doc_defined
      split: option.splits)

lemma reverse_index_unfold:
  assumes "valid_ref [''orgs'', g, ''members'', uid u]"
  shows "reverse_index e g i iv u w =
    (case rejects e Index of
       Some m \<Rightarrow> (Inl m, log (Remote Index (SetDoc (payload (index_obj e iv g (org_name_read e g w))) True)
            (membership_path (uid u) g) False) (snd (org_read e g w)))
     | None \<Rightarrow> finalise e g i (org_name_read e g w) (indexed e g iv u w))"
proof -
  obtain r1 w1 where o: "org_read e g w = (r1, w1)" by (cases "org_read e g w")
  have d: "db w1 = db w" using org_read_frame(1) [of e g w] by (simp add: o)
  have v: "doc_ref e [''users'', uid u, ''orgMemberships'', g] = Inr (membership_path (uid u) g)"
    using assms by (simp add: doc_ref_valid)
  show ?thesis
    unfolding reverse_index_def indexed_def org_name_read_def o fst_conv snd_conv prod.case Let_def v sum.case
    by (cases "rejects e Index") (simp_all add: set_doc_defined d cong: option.case_cong)
qed

lemma reverse_index_Inr:
  assumes "reverse_index e g i iv u w = (Inr out, w')" "valid_ref [''orgs'', g, ''members'', uid u]"
  shows "rejects e Index = None \<and>
         finalise e g i (org_name_read e g w) (indexed e g iv u w) = (Inr out, w')"
  using assms(1) by (cases "rejects e Index") (simp_all add: reverse_index_unfold [OF assms(2)])

lemma reverse_index_eq:
  assumes "rejects e Index = None" "valid_ref [''orgs'', g, ''members'', uid u]"
  shows "reverse_index e g i iv u w = finalise e g i (org_name_read e g w) (indexed e g iv u w)"
  using assms(1) by (simp add: reverse_index_unfold [OF assms(2)])

lemma finalise_unfold:
  "finalise e g i n w =
     (case setOrg e g n (clear_pointers e (deleted e g i w)) of
        (Inl m, w3) \<Rightarrow> (Inl m, w3)
      | (Inr x, w3) \<Rightarrow>
          (Inr (Joined n),
           if \<not> completed w3 then w3\<lparr>completed := True, nav := Some (Nav ''/'' (Some n))\<rparr> else w3))"
  by (cases "rejects e DeleteInvite") (simp_all add: finalise_def deleted_def delete_doc_def Let_def)

lemma deleted_frame [simp]:
  "ls (deleted e g i w) = ls w" "err (deleted e g i w) = err w" "busy (deleted e g i w) = busy w"
  "completed (deleted e g i w) = completed w" "nav (deleted e g i w) = nav w"
  "scope (deleted e g i w) = scope w"
  by (simp_all add: deleted_def)

lemma finalise_Inr:
  assumes "finalise e g i n w = (Inr out, w')"
  shows "out = Joined n" "pointers_cleared w'" "scope w' = Some (g, coalesce n JNull)" "g \<noteq> []"
    "err w' = err w" "busy w' = busy w" "\<not> completed w \<Longrightarrow> nav w' = Some (Nav ''/'' (Some n))"
    "scope_touch (db (deleted e g i w)) (db w')"
    "calls_at s (trace w') = calls_at s (trace (deleted e g i w)) \<or> s = ScopeUpdate \<or> s = ScopeSet"
proof -
  obtain r3 w3 where s: "setOrg e g n (clear_pointers e (deleted e g i w)) = (r3, w3)"
    by (cases "setOrg e g n (clear_pointers e (deleted e g i w))")
  from assms s obtain x where r3: "r3 = Inr x" and out: "out = Joined n"
    and w': "w' = (if \<not> completed w3 then w3\<lparr>completed := True, nav := Some (Nav ''/'' (Some n))\<rparr> else w3)"
    by (auto simp add: finalise_unfold split: sum.splits)
  note sp = setOrg_spec [OF s]
  show "out = Joined n" by (rule out)
  have "pointers_cleared w3"
    using pointers_cleared_ls [OF sp(2)] by simp
  then show "pointers_cleared w'" by (simp add: w')
  show "scope w' = Some (g, coalesce n JNull)" "g \<noteq> []" using sp(8) [OF r3] by (simp_all add: w')
  show "err w' = err w" "busy w' = busy w" using sp(3,4) by (simp_all add: w')
  show "nav w' = Some (Nav ''/'' (Some n))" if "\<not> completed w" using that sp(5) by (simp add: w')
  show "scope_touch (db (deleted e g i w)) (db w')" using sp(1) by (simp add: w')
  show "calls_at s (trace w') = calls_at s (trace (deleted e g i w)) \<or> s = ScopeUpdate \<or> s = ScopeSet"
    using sp(7) [of s] by (auto simp add: w')
qed

lemma deleted_db:
  "db (deleted e g i w) p = (if rejects e DeleteInvite = None \<and> p = invite_path g i then None else db w p)"
  by (simp add: deleted_def)

lemma finalise_ok_iff:
  "(\<exists>out w'. finalise e g i n w = (Inr out, w')) \<longleftrightarrow> scope_ok e g (db w)"
proof -
  have "(\<exists>out w'. finalise e g i n w = (Inr out, w')) \<longleftrightarrow>
        (\<exists>w3. setOrg e g n (clear_pointers e (deleted e g i w)) = (Inr (), w3))"
    by (cases "setOrg e g n (clear_pointers e (deleted e g i w))")
       (auto simp add: finalise_unfold split: sum.splits)
  also have "\<dots> \<longleftrightarrow> scope_ok e g (db w)"
    by (simp add: setOrg_ok_iff scope_ok_def deleted_db split: option.splits)
  finally show ?thesis .
qed

lemma finish_Joined:
  "finish r = (Joined n, w') \<Longrightarrow> \<exists>w''. r = (Inr (Joined n), w'') \<and> w' = w''\<lparr>busy := False\<rparr>"
  by (cases r) (auto simp add: finish_def Let_def split: sum.splits)

lemma checks_Joined:
  assumes "checks e g i iv ip u w = (Inr (Joined n), w'')"
  shows "status_open iv \<and> \<not> email_mismatch iv u \<and>
     (\<exists>f l. resolved_names e u w = (Some f, Some l) \<and>
       join e g i iv u f l (snd (profile_read e u w)) = (Inr (Joined n), w''))"
proof -
  have st: "status_open iv" and em: "\<not> email_mismatch iv u"
    using assms by (auto simp add: checks_def fail_def status_open_def split: if_splits)
  obtain a b where names: "resolved_names e u w = (a, b)"
    by (cases "resolved_names e u w")
  show ?thesis
    using assms names st em
    by (cases a; cases b; simp add: checks_passed [OF st em] del: try_ls.simps)
qed

lemma resolve_Joined:
  assumes "resolve e g tok ip u w = (Inr (Joined n), w'')"
  shows "\<exists>i iv. field tok ''inviteId'' = JStr i \<and> i \<noteq> [] \<and> valid_ref [''orgs'', g, ''invites'', i] \<and>
     rejects e ReadInvite = None \<and> db w (invite_path g i) = Some iv \<and>
     checks e g i iv ip u (log (Remote ReadInvite GetDoc (invite_path g i) True) w) = (Inr (Joined n), w'')"
  using assms
  by (cases "field tok ''inviteId''")
     (auto simp add: resolve_def fail_def get_doc_def split: if_splits option.splits sum.splits
      dest!: doc_ref_Inr)

lemma run_Joined:
  assumes "accept_invite e token org usr w = (Joined n, w')"
  shows "\<exists>t g u i iv f l w''. token = Some t \<and> org = Some g \<and> usr = Some u \<and>
     invite_resolved e t g w i iv \<and> status_open iv \<and> \<not> email_mismatch iv u \<and>
     resolved_names e u w = (Some f, Some l) \<and>
     join e g i iv u f l (at_join e t g i u w) = (Inr (Joined n), w'') \<and> w' = w''\<lparr>busy := False\<rparr>"
proof -
  from assms obtain t g tok where tk: "token = Some t" "org = Some g" "t \<noteq> []" "g \<noteq> []"
    "valid_ref [''orgs'', g, ''inviteTokens'', t]"
    "rejects e ReadToken = None" "db w (token_path g t) = Some tok"
    by (cases token; cases org)
       (auto simp add: accept_invite_def Let_def get_doc_def split: if_splits option.splits sum.splits
        dest!: doc_ref_Inr)
  from assms have oa: "on_auth e g tok (invitePath (Some t) g) usr (at_callback e t g w) = (Joined n, w')"
    by (simp add: tk(1,2) run_at_callback [OF tk(3-7)])
  then obtain u where u: "usr = Some u" by (cases usr) (auto simp add: on_auth_def)
  from oa u have "finish (resolve e g tok (invitePath (Some t) g) u ((at_callback e t g w)\<lparr>busy := True\<rparr>))
      = (Joined n, w')"
    by (simp add: on_auth_def)
  from finish_Joined [OF this] obtain w'' where
    rs: "resolve e g tok (invitePath (Some t) g) u ((at_callback e t g w)\<lparr>busy := True\<rparr>) = (Inr (Joined n), w'')"
    and w': "w' = w''\<lparr>busy := False\<rparr>"
    by blast
  from resolve_Joined [OF rs] obtain i iv where
    iv: "field tok ''inviteId'' = JStr i" "i \<noteq> []" "valid_ref [''orgs'', g, ''invites'', i]"
      "rejects e ReadInvite = None" "db w (invite_path g i) = Some iv"
    and ch: "checks e g i iv (invitePath (Some t) g) u (at_checks e t g i w) = (Inr (Joined n), w'')"
    by (auto simp add: at_checks_def)
  from checks_Joined [OF ch] obtain f l where st: "status_open iv" "\<not> email_mismatch iv u"
    and nm: "resolved_names e u w = (Some f, Some l)"
    and jn: "join e g i iv u f l (at_join e t g i u w) = (Inr (Joined n), w'')"
    by (auto simp add: at_join_def)
  have "invite_resolved e t g w i iv"
    using tk iv by (simp add: invite_resolved_def)
  with tk u st nm jn w' show ?thesis by blast
qed

lemma run_join:
  assumes "invite_resolved e t g w i iv" "status_open iv" "\<not> email_mismatch iv u"
    "resolved_names e u w = (Some f, Some l)"
  shows "accept_invite e (Some t) (Some g) (Some u) w = finish (join e g i iv u f l (at_join e t g i u w))"
  using assms(4)
  by (simp add: run_at_checks [OF assms(1)] checks_passed [OF assms(2,3)] at_join_def)

lemma run_invite_gone:
  assumes "t \<noteq> []" "g \<noteq> []" "valid_ref [''orgs'', g, ''inviteTokens'', t]"
    "rejects e ReadToken = None" "db w (token_path g t) = Some tok"
    "field tok ''inviteId'' = JStr i" "i \<noteq> []" "valid_ref [''orgs'', g, ''invites'', i]"
    "rejects e ReadInvite = None" "db w (invite_path g i) = None"
  shows "accept_invite e (Some t) (Some g) (Some u) w =
    (invite_not_found, (at_checks e t g i w)\<lparr>err := Some ''Invite not found.'', busy := False\<rparr>)"
  using assms(6,7,9,10)
  by (simp add: run_at_callback [OF assms(1-5)] on_auth_def resolve_def doc_ref_valid [OF assms(8)]
      get_doc_def fail_def finish_def at_checks_def)

lemma run_malformed:
  assumes "t \<noteq> []" "g \<noteq> []" "valid_ref [''orgs'', g, ''inviteTokens'', t]"
    "rejects e ReadToken = None" "db w (token_path g t) = Some tok"
    "\<not> truthy (field tok ''inviteId'')"
  shows "accept_invite e (Some t) (Some g) (Some u) w =
    (malformed_token, (at_callback e t g w)\<lparr>err := Some ''Malformed invite token.'', busy := False\<rparr>)"
  using assms(6)
  by (simp add: run_at_callback [OF assms(1-5)] on_auth_def resolve_def fail_def finish_def)

lemma link_A: "invitePath (Some ''tok123'') ''orgA'' = ''/invite/tok123?org=orgA''"
  by code_simp

lemma is_claim_call_claim [simp]: "is_claim_call e u (UpdateDoc (payload (claim_obj e iv u f l)))"
  unfolding is_claim_call_def by blast

lemma lower_char_idem [simp]: "lower_char (lower_char c) = lower_char c"
proof (cases "(65 \<le> (of_char c :: nat) \<and> (of_char c :: nat) \<le> 90) \<or>
    (192 \<le> (of_char c :: nat) \<and> (of_char c :: nat) \<le> 222 \<and> (of_char c :: nat) \<noteq> 215)")
  case True
  then have "(of_char (char_of ((of_char c :: nat) + 32)) :: nat) = of_char c + 32"
    by (auto simp add: of_char_of [where ?'a = nat])
  with True show ?thesis by (auto simp add: lower_char_def Let_def)
next
  case False
  then show ?thesis by (auto simp add: lower_char_def Let_def)
qed

lemma toLowerCase_idem [simp]: "toLowerCase (toLowerCase s) = toLowerCase s"
  by (simp add: toLowerCase_def)

lemma myEmail_lower: "myEmail u = Some s \<Longrightarrow> toLowerCase s = s"
  by (auto simp add: myEmail_def or_null_def split: if_splits)

lemma claim_payload_email:
  "payload (claim_obj e iv u f l) ''claimedEmail'' = Some (js_of (myEmail u))"
  "payload (claim_obj e iv u f l) ''claimedEmail_lc'' = Some (js_of (myEmail u))"
  by (simp_all add: payload_def claim_obj_def)

lemma deleted_calls_at: "s \<noteq> DeleteInvite \<Longrightarrow> calls_at s (trace (deleted e g i w)) = calls_at s (trace w)"
  by (simp add: deleted_def)

lemma finalise_calls_at:
  assumes "finalise e g i n w = (r, w')" "s \<noteq> DeleteInvite" "s \<noteq> ScopeUpdate" "s \<noteq> ScopeSet"
  shows "calls_at s (trace w') = calls_at s (trace w)"
proof -
  obtain r3 w3 where s: "setOrg e g n (clear_pointers e (deleted e g i w)) = (r3, w3)"
    by (cases "setOrg e g n (clear_pointers e (deleted e g i w))")
  have "trace w' = trace w3"
    using assms(1) s by (auto simp add: finalise_unfold split: sum.splits)
  then show ?thesis
    using setOrg_spec(7) [OF s, of s] assms(2-4) by (simp add: deleted_calls_at)
qed

lemma reverse_index_calls_at:
  assumes "reverse_index e g i iv u w = (r, w')" "s = Claim \<or> s = CreateMember"
    "valid_ref [''orgs'', g, ''members'', uid u]"
  shows "calls_at s (trace w') = calls_at s (trace w)"
  using assms(1,2)
  by (cases "rejects e Index")
     (auto simp add: reverse_index_unfold [OF assms(3)] indexed_def dest!: finalise_calls_at [where s = s])

lemma create_member_calls_at:
  assumes "create_member e g i iv u f l w = (r, w')"
  shows "calls_at Claim (trace w') = calls_at Claim (trace w)"
proof (cases "valid_ref [''orgs'', g, ''members'', uid u]")
  case True
  show ?thesis
    using assms
    by (auto simp add: create_member_def doc_ref_valid [OF True] set_doc_defined
        split: option.splits dest!: reverse_index_calls_at [where s = Claim, OF _ _ True])
next
  case False
  from doc_ref_invalid [OF this] obtain m where "doc_ref e [''orgs'', g, ''members'', uid u] = Inl m"
    by blast
  with assms show ?thesis by (simp add: create_member_def)
qed

lemma join_claim_calls:
  assumes "join e g i iv u f l w = (r, w')" "claim_calls_ok e u (trace w)"
  shows "claim_calls_ok e u (trace w')"
  using assms
  by (auto simp add: join_def claim_calls_ok_def
      dest!: update_doc_Inl update_doc_Inr create_member_calls_at split: sum.splits prod.splits)

lemma checks_claim_calls:
  assumes "checks e g i iv ip u w = (r, w')" "claim_calls_ok e u (trace w)"
  shows "claim_calls_ok e u (trace w')"
proof -
  obtain r1 w1 where p: "profile_read e u w = (r1, w1)" by (cases "profile_read e u w")
  have base: "claim_calls_ok e u (trace w1)"
    using assms(2) profile_read_calls_at [of Claim e u w] by (simp add: claim_calls_ok_def p)
  have other: "claim_calls_ok e u (trace (try_ls e ops w1))" for ops
    using base by (simp add: claim_calls_ok_def del: try_ls.simps)
  show ?thesis
    using assms base other
    by (auto simp add: checks_def fail_def p simp del: try_ls.simps
        split: if_splits option.splits prod.splits dest: join_claim_calls)
qed

lemma resolve_claim_calls:
  assumes "resolve e g tok ip u w = (r, w')" "claim_calls_ok e u (trace w)"
  shows "claim_calls_ok e u (trace w')"
proof -
  have base: "claim_calls_ok e u (trace (log (Remote ReadInvite GetDoc p b) w))" for p b
    using assms(2) by (simp add: claim_calls_ok_def)
  show ?thesis
    using assms base
    by (cases "field tok ''inviteId''")
       (auto simp add: resolve_def fail_def get_doc_eq
        split: if_splits option.splits sum.splits dest: checks_claim_calls)
qed

lemma run_claim_calls:
  assumes "accept_invite e token org (Some u) w = (out, w')"
  shows "claim_calls_ok e u (trace w')"
proof (cases "\<exists>t g tok. token = Some t \<and> org = Some g \<and> t \<noteq> [] \<and> g \<noteq> [] \<and>
     valid_ref [''orgs'', g, ''inviteTokens'', t] \<and>
     rejects e ReadToken = None \<and> db w (token_path g t) = Some tok")
  case True
  then obtain t g tok where tk: "token = Some t" "org = Some g" "t \<noteq> []" "g \<noteq> []"
    "valid_ref [''orgs'', g, ''inviteTokens'', t]"
    "rejects e ReadToken = None" "db w (token_path g t) = Some tok" by blast
  obtain r w1 where rs: "resolve e g tok (invitePath (Some t) g) u ((at_callback e t g w)\<lparr>busy := True\<rparr>) = (r, w1)"
    by (cases "resolve e g tok (invitePath (Some t) g) u ((at_callback e t g w)\<lparr>busy := True\<rparr>)")
  have "claim_calls_ok e u (trace ((at_callback e t g w)\<lparr>busy := True\<rparr>))"
    by (simp add: claim_calls_ok_def at_callback_def)
  from resolve_claim_calls [OF rs this] have "claim_calls_ok e u (trace w1)" .
  moreover have "trace w' = trace w1"
    using assms rs
    by (auto simp add: tk(1,2) run_at_callback [OF tk(3-7)] on_auth_def finish_def Let_def split: sum.splits)
  ultimately show ?thesis by simp
next
  case False
  show ?thesis
  proof (cases "\<exists>t g. token = Some t \<and> org = Some g \<and> t \<noteq> [] \<and> g \<noteq> [] \<and>
      \<not> valid_ref [''orgs'', g, ''inviteTokens'', t]")
    case True
    then obtain t g where tk: "token = Some t" "org = Some g" "t \<noteq> []" "g \<noteq> []"
      and nv: "\<not> valid_ref [''orgs'', g, ''inviteTokens'', t]" by blast
    from doc_ref_invalid [OF nv] obtain m where "doc_ref e [''orgs'', g, ''inviteTokens'', t] = Inl m"
      by blast
    with assms tk show ?thesis
      by (auto simp add: accept_invite_def Let_def claim_calls_ok_def)
  next
    case nv: False
    with False assms show ?thesis
      by (cases token; cases org)
         (auto simp add: accept_invite_def Let_def get_doc_def claim_calls_ok_def doc_ref_valid
          split: if_splits option.splits)
  qed
qed

lemma claimed_simps [simp]:
  "db (claimed e g i iv u f l d w) = (db w)(invite_path g i \<mapsto> d ++ payload (claim_obj e iv u f l))"
  "trace (claimed e g i iv u f l d w) =
     trace w @ [Remote Claim (UpdateDoc (payload (claim_obj e iv u f l))) (invite_path g i) True]"
  "ls (claimed e g i iv u f l d w) = ls w" "err (claimed e g i iv u f l d w) = err w"
  "busy (claimed e g i iv u f l d w) = busy w" "completed (claimed e g i iv u f l d w) = completed w"
  "nav (claimed e g i iv u f l d w) = nav w" "scope (claimed e g i iv u f l d w) = scope w"
  by (simp_all add: claimed_def)

lemma membered_simps [simp]:
  "db (membered e g i iv u f l w) = (db w)(member_path g (uid u) \<mapsto> payload (member_obj e iv u f l i))"
  "trace (membered e g i iv u f l w) =
     trace w @ [Remote CreateMember (SetDoc (payload (member_obj e iv u f l i)) False) (member_path g (uid u)) True]"
  "ls (membered e g i iv u f l w) = ls w" "err (membered e g i iv u f l w) = err w"
  "busy (membered e g i iv u f l w) = busy w" "completed (membered e g i iv u f l w) = completed w"
  "nav (membered e g i iv u f l w) = nav w" "scope (membered e g i iv u f l w) = scope w"
  by (simp_all add: membered_def)

lemma indexed_simps [simp]:
  "db (indexed e g iv u w) = (db w)(membership_path (uid u) g \<mapsto>
      (case db w (membership_path (uid u) g) of
         None \<Rightarrow> payload (index_obj e iv g (org_name_read e g w))
       | Some old \<Rightarrow> merge_doc old (payload (index_obj e iv g (org_name_read e g w)))))"
  "trace (indexed e g iv u w) =
     trace (snd (org_read e g w)) @
       [Remote Index (SetDoc (payload (index_obj e iv g (org_name_read e g w))) True)
         (membership_path (uid u) g) True]"
  "ls (indexed e g iv u w) = ls w" "err (indexed e g iv u w) = err w"
  "busy (indexed e g iv u w) = busy w" "completed (indexed e g iv u w) = completed w"
  "nav (indexed e g iv u w) = nav w" "scope (indexed e g iv u w) = scope w"
  by (simp_all add: indexed_def)

lemma org_name_read_cong: "db w' (org_path g) = db w (org_path g) \<Longrightarrow> org_name_read e g w' = org_name_read e g w"
  using org_read_cong [of w' g w e] by (simp add: org_name_read_def)

lemma org_name_read_membered [simp]:
  "org_name_read e g (membered e g i iv u f l (claimed e g i iv u f l d w)) = org_name_read e g w"
  by (rule org_name_read_cong) simp

lemma join_success:
  assumes "join e g i iv u f l w = (Inr out, w')"
  shows "\<exists>d. db w (invite_path g i) = Some d \<and> claim_ok e iv \<and>
     valid_ref [''orgs'', g, ''members'', uid u] \<and> rejects e CreateMember = None \<and>
     rejects e Index = None \<and>
     finalise e g i (org_name_read e g w) (index_world e g i iv u f l d w) = (Inr out, w')"
proof -
  from join_Inr [OF assms] obtain d where d: "db w (invite_path g i) = Some d" "claim_ok e iv"
    and cm: "create_member e g i iv u f l (claimed e g i iv u f l d w) = (Inr out, w')" by blast
  from create_member_Inr [OF cm] have v: "valid_ref [''orgs'', g, ''members'', uid u]"
    and m: "rejects e CreateMember = None"
    and ri: "reverse_index e g i iv u (membered e g i iv u f l (claimed e g i iv u f l d w)) = (Inr out, w')"
    by simp_all
  from reverse_index_Inr [OF ri v] d m v show ?thesis
    by (auto simp add: index_world_def)
qed

lemma join_success_eq:
  assumes "db w (invite_path g i) = Some d" "claim_ok e iv" "valid_ref [''orgs'', g, ''members'', uid u]"
    "rejects e CreateMember = None" "rejects e Index = None"
  shows "join e g i iv u f l w = finalise e g i (org_name_read e g w) (index_world e g i iv u f l d w)"
  by (simp add: join_eq [OF assms(1,2)] create_member_eq [OF assms(3,4)] reverse_index_eq [OF assms(5,3)]
      index_world_def)

lemma index_world_frame [simp]:
  "ls (index_world e g i iv u f l d w) = ls w" "err (index_world e g i iv u f l d w) = err w"
  "busy (index_world e g i iv u f l d w) = busy w" "completed (index_world e g i iv u f l d w) = completed w"
  "nav (index_world e g i iv u f l d w) = nav w" "scope (index_world e g i iv u f l d w) = scope w"
  by (simp_all add: index_world_def)

lemma index_world_db:
  "db (index_world e g i iv u f l d w) (member_path g (uid u)) = Some (payload (member_obj e iv u f l i))"
  "db (index_world e g i iv u f l d w) (membership_path (uid u) g) =
     Some (case db w (membership_path (uid u) g) of
        None \<Rightarrow> payload (index_obj e iv g (org_name_read e g w))
      | Some old \<Rightarrow> merge_doc old (payload (index_obj e iv g (org_name_read e g w))))"
  "db (index_world e g i iv u f l d w) (invite_path g i) = Some (d ++ payload (claim_obj e iv u f l))"
  "p \<noteq> member_path g (uid u) \<Longrightarrow> p \<noteq> membership_path (uid u) g \<Longrightarrow> p \<noteq> invite_path g i \<Longrightarrow>
     db (index_world e g i iv u f l d w) p = db w p"
  by (simp_all add: index_world_def split: option.splits)

lemma index_world_calls:
  "calls_at Claim (trace (index_world e g i iv u f l d w)) =
     calls_at Claim (trace w) @ [(UpdateDoc (payload (claim_obj e iv u f l)), invite_path g i, True)]"
  "calls_at CreateMember (trace (index_world e g i iv u f l d w)) =
     calls_at CreateMember (trace w) @
       [(SetDoc (payload (member_obj e iv u f l i)) False, member_path g (uid u), True)]"
  "calls_at Index (trace (index_world e g i iv u f l d w)) =
     calls_at Index (trace w) @
       [(SetDoc (payload (index_obj e iv g (org_name_read e g w))) True, membership_path (uid u) g, True)]"
  "calls_at DeleteInvite (trace (index_world e g i iv u f l d w)) = calls_at DeleteInvite (trace w)"
  by (simp_all add: index_world_def)

lemma scope_touch_other: "scope_touch D D' \<Longrightarrow> (\<And>x. p \<noteq> user_path x) \<Longrightarrow> D' p = D p"
  unfolding scope_touch_def by metis

lemma scope_touch_at:
  "scope_touch D D' \<Longrightarrow> D' p = D p \<or> (\<exists>d. D' p = Some d \<and>
      (\<forall>k. k \<noteq> ''scope'' \<longrightarrow> d k = (case D p of None \<Rightarrow> None | Some d0 \<Rightarrow> d0 k)))"
  unfolding scope_touch_def by blast

lemma scope_touch_field:
  assumes "scope_touch D D'" "D p = Some d0" "k \<noteq> ''scope''"
  shows "\<exists>d. D' p = Some d \<and> d k = d0 k"
  using scope_touch_at [OF assms(1), of p] assms(2,3) by auto

lemma at_join_frame [simp]:
  "db (at_join e t g i u w) = db w" "scope (at_join e t g i u w) = scope w"
  "completed (at_join e t g i u w) = completed w" "nav (at_join e t g i u w) = nav w"
  "err (at_join e t g i u w) = None"
  "ls (at_join e t g i u w) = ls (at_callback e t g w)"
  "writes (trace (at_join e t g i u w)) = []"
  "calls_at Claim (trace (at_join e t g i u w)) = []"
  "calls_at CreateMember (trace (at_join e t g i u w)) = []"
  "calls_at Index (trace (at_join e t g i u w)) = []"
  "calls_at DeleteInvite (trace (at_join e t g i u w)) = []"
  by (simp_all add: at_join_def at_checks_def at_callback_def)

lemma invite_resolved_unique:
  assumes "invite_resolved e t g w i iv" "invite_resolved e t g w i' iv'"
  shows "i' = i \<and> iv' = iv"
  using assms by (auto simp add: invite_resolved_def split: option.splits)

lemma scope_ok_dom:
  assumes "\<And>x. (D' (user_path x) \<noteq> None) = (D (user_path x) \<noteq> None)"
  shows "scope_ok e g D' = scope_ok e g D"
  using assms by (cases "provider_user e") (simp_all add: scope_ok_def)

lemma index_world_dom:
  "(db (index_world e g i iv u f l d w) p \<noteq> None) =
     (p = member_path g (uid u) \<or> p = membership_path (uid u) g \<or> p = invite_path g i \<or> db w p \<noteq> None)"
  by (simp add: index_world_def)

lemma scope_ok_index_world:
  "scope_ok e g (db (index_world e1 g1 i iv1 u f1 l1 d1 (at_join e1' t g' i' u' w))) =
   scope_ok e g (db (index_world e2 g1 i iv2 u f2 l2 d2 (at_join e2' t g' i' u' w)))"
  by (rule scope_ok_dom) (simp only: index_world_dom at_join_frame)

lemma org_name_read_at_join [simp]: "org_name_read e g (at_join e' t g' i u w) = org_name_read e g w"
  by (rule org_name_read_cong) simp

lemma run_Joined_facts:
  assumes "invite_resolved e t g w i iv" "accept_invite e (Some t) (Some g) (Some u) w = (Joined n, w')"
  shows "\<exists>f l d W. resolved_names e u w = (Some f, Some l) \<and> status_open iv \<and> \<not> email_mismatch iv u \<and>
      db w (invite_path g i) = Some d \<and> claim_ok e iv \<and>
      valid_ref [''orgs'', g, ''members'', uid u] \<and> rejects e CreateMember = None \<and>
      rejects e Index = None \<and> n = org_name_read e g w \<and>
      W = index_world e g i iv u f l d (at_join e t g i u w) \<and> scope_ok e g (db W) \<and>
      scope_touch (db (deleted e g i W)) (db w') \<and>
      pointers_cleared w' \<and> scope w' = Some (g, n) \<and> err w' = None \<and>
      (\<not> completed w \<longrightarrow> nav w' = Some (Nav ''/'' (Some n))) \<and>
      (\<forall>s. s \<noteq> ScopeUpdate \<and> s \<noteq> ScopeSet \<longrightarrow> calls_at s (trace w') = calls_at s (trace (deleted e g i W)))"
proof -
  from run_Joined [OF assms(2)] obtain i' iv' f l w'' where
    r: "invite_resolved e t g w i' iv'" and st: "status_open iv'" "\<not> email_mismatch iv' u"
    and nm: "resolved_names e u w = (Some f, Some l)"
    and jn: "join e g i' iv' u f l (at_join e t g i' u w) = (Inr (Joined n), w'')"
    and w': "w' = w''\<lparr>busy := False\<rparr>" by auto
  from invite_resolved_unique [OF assms(1) r] have eq: "i' = i" "iv' = iv" by simp_all
  from join_success [OF jn [unfolded eq]] obtain d where
    d: "db w (invite_path g i) = Some d" and ok: "claim_ok e iv" "valid_ref [''orgs'', g, ''members'', uid u]"
      "rejects e CreateMember = None" "rejects e Index = None"
    and fin: "finalise e g i (org_name_read e g w) (index_world e g i iv u f l d (at_join e t g i u w)) = (Inr (Joined n), w'')"
    by auto
  note F = finalise_Inr [OF fin]
  have sc: "scope_ok e g (db (index_world e g i iv u f l d (at_join e t g i u w)))"
    using finalise_ok_iff [of e g i "org_name_read e g w" "index_world e g i iv u f l d (at_join e t g i u w)"] fin
    by auto
  have n: "n = org_name_read e g w" using F(1) by simp
  have nn: "coalesce n JNull = n"
    using org_name_defined [of "fst (org_read e g w)"]
    by (auto simp add: n org_name_read_def org_name_def coalesce_def nullish_def split: option.splits sum.splits)
  have calls: "\<forall>s. s \<noteq> ScopeUpdate \<and> s \<noteq> ScopeSet \<longrightarrow>
      calls_at s (trace w') = calls_at s (trace (deleted e g i (index_world e g i iv u f l d (at_join e t g i u w))))"
    using F(9) by (auto simp add: w')
  show ?thesis
    using nm st [unfolded eq] d ok sc n F(2,3,5,7,8) nn calls
    by (auto simp add: w')
qed

lemma run_Joined_intro:
  assumes "invite_resolved e t g w i iv" "status_open iv" "\<not> email_mismatch iv u"
    "resolved_names e u w = (Some f, Some l)" "claim_ok e iv"
    "valid_ref [''orgs'', g, ''members'', uid u]" "rejects e CreateMember = None"
    "rejects e Index = None" "scope_ok e g (db (index_world e g i iv u f l iv (at_join e t g i u w)))"
  shows "\<exists>w'. accept_invite e (Some t) (Some g) (Some u) w = (Joined (org_name_read e g w), w')"
proof -
  let ?W = "index_world e g i iv u f l iv (at_join e t g i u w)"
  have d: "db (at_join e t g i u w) (invite_path g i) = Some iv"
    using assms(1) by (simp add: invite_resolved_def)
  have n: "org_name_read e g (at_join e t g i u w) = org_name_read e g w"
    by simp
  from assms(9) obtain out w'' where fin: "finalise e g i (org_name_read e g w) ?W = (Inr out, w'')"
    using finalise_ok_iff [of e g i "org_name_read e g w" ?W] by blast
  from finalise_Inr(1) [OF fin] have "out = Joined (org_name_read e g w)" .
  with fin show ?thesis
    by (simp add: run_join [OF assms(1-4)] join_success_eq [OF d assms(5-8)] n finish_def)
qed

lemma resolved_names_rejects:
  assumes "(rejects e2 ReadProfile = None) = (rejects e1 ReadProfile = None)"
  shows "resolved_names e2 u w = resolved_names e1 u w"
proof -
  have "profile_names (fst (profile_read e2 u w)) = profile_names (fst (profile_read e1 u w))"
    using assms
    by (cases "rejects e1 ReadProfile"; cases "rejects e2 ReadProfile")
       (auto simp add: profile_read_def doc_ref_def get_doc_eq profile_names_def)
  then show ?thesis by (simp add: resolved_names_def)
qed

lemma org_name_read_rejects:
  assumes "(rejects e2 ReadOrg = None) = (rejects e1 ReadOrg = None)"
  shows "org_name_read e2 g w = org_name_read e1 g w"
  using assms
  by (cases "rejects e1 ReadOrg"; cases "rejects e2 ReadOrg")
     (auto simp add: org_name_read_def org_read_def doc_ref_def get_doc_eq org_name_def)

lemma best_effort_names:
  "resolved_names (e\<lparr>rejects := (rejects e)(ReadOrg := a, DeleteInvite := b)\<rparr>) u w = resolved_names e u w"
  by (rule resolved_names_rejects) simp

lemma best_effort_env [simp]:
  "invite_resolved (e\<lparr>rejects := (rejects e)(ReadOrg := a, DeleteInvite := b)\<rparr>) t g w i iv
     = invite_resolved e t g w i iv"
  "resolved_names (e\<lparr>rejects := (rejects e)(ReadOrg := a, DeleteInvite := b)\<rparr>) u w = resolved_names e u w"
  "claim_ok (e\<lparr>rejects := (rejects e)(ReadOrg := a, DeleteInvite := b)\<rparr>) iv = claim_ok e iv"
  "scope_ok (e\<lparr>rejects := (rejects e)(ReadOrg := a, DeleteInvite := b)\<rparr>) g D = scope_ok e g D"
  by (simp_all add: invite_resolved_def best_effort_names claim_ok_def scope_ok_def split: option.splits)

lemma merge_field_plain: "(\<And>a. v \<noteq> JMap a) \<Longrightarrow> merge_field old v = v"
  by (cases v) (auto simp add: merge_field_def split: option.splits jsval.splits)

lemma payload_roles:
  "payload (member_obj e iv u f l i) ''role'' = Some (role_of iv)"
  "payload (index_obj e iv g (org_name_read e g w)) ''role'' = Some (role_of iv)"
  by (simp_all add: payload_def member_obj_def index_obj_def)

lemma names_A: "resolved_names envA userPat worldA = (Some ''Pat'', Some ''Lee'')"
proof -
  have "trim ''Pat'' = ''Pat''" "trim ''Lee'' = ''Lee''" by code_simp+
  then show ?thesis
    using valid_A(4)
    by (simp add: resolved_names_def profile_read_def doc_ref_valid get_doc_eq scenario_defs profile_names_def
        display_names_def name_field_def field_def or_null_def)
qed

lemma status_A: "status_open inviteA"
  by (simp add: status_open_def inviteA_def field_def)

lemma claim_ok_A: "claim_ok envA inviteA"
  by (simp add: claim_ok_def envA_def inviteA_def field_def)

lemma valid_member_A: "valid_ref [''orgs'', ''orgA'', ''members'', uid userPat]"
  by (simp add: userPat_def valid_A)

lemma scope_ok_A:
  "scope_ok envA ''orgA'' (db (index_world e g i iv u f l d (at_join e' ''tok123'' ''orgA'' ''inv1'' userPat worldA)))"
  unfolding scope_ok_def by (simp add: index_world_dom envA_def valid_A worldA_def dbA_def paths_A)

lemma org_name_A: "org_name_read envA ''orgA'' worldA = JStr ''Acme''"
  using valid_A(6)
  by (simp add: org_name_read_def org_read_def doc_ref_valid get_doc_eq org_name_def scenario_defs field_def)

lemma scenario_A_joined:
  "fst (accept_invite envA (Some ''tok123'') (Some ''orgA'') (Some userPat) worldA) = Joined (JStr ''Acme'')"
proof -
  have r: "rejects envA CreateMember = None" "rejects envA Index = None" by (simp_all add: envA_def)
  from run_Joined_intro [OF resolved_A status_A no_mismatch_A names_A claim_ok_A valid_member_A r scope_ok_A]
  show ?thesis by (auto simp add: org_name_A)
qed

lemma envFlaky_best: "envFlaky\<lparr>rejects := (rejects envFlaky)(ReadOrg := None, DeleteInvite := None)\<rparr> = envA"
  by (simp add: envFlaky_def envA_def fun_eq_iff)

section \<open>The claims\<close>

text \<open>
  Claim C1. In every run the remote writes are issued in the order claim, member, reverse
  index, deletion: \<open>write_order\<close> holds of the writes of the trace. A write is attempted
  only after the one before it succeeded, so when the claim, the member or the index step
  fails no later write of the order is issued, and nothing is written to undo an earlier
  one; only the scope provider writes after the deletion.
\<close>

theorem C1_writes_in_order:
  assumes "accept_invite e token org usr w = (out, w')"
  shows "\<exists>i. write_order (case org of None \<Rightarrow> [] | Some s \<Rightarrow> s) i
               (case usr of None \<Rightarrow> [] | Some u \<Rightarrow> uid u) (writes (trace w'))"
  using assms
  by (auto simp add: accept_invite_def Let_def get_doc_def
      split: option.splits if_splits sum.splits dest!: on_auth_writes)

theorem C1_writes_in_order_witness:
  "\<exists>i. write_order ''orgA'' i ''u1''
     (writes (trace (snd (accept_invite envA (Some ''tok123'') (Some ''orgA'') (Some userPat) worldA))))"
  using C1_writes_in_order [OF prod.collapse [symmetric], where e = envA and token = "Some ''tok123''" and org = "Some ''orgA''"
      and usr = "Some userPat" and w = worldA]
  by (simp add: userPat_def)

text \<open>
  Claim C6. When the invite's status is \<^verbatim>\<open>accepted\<close>, \<^verbatim>\<open>revoked\<close> or \<^verbatim>\<open>expired\<close>, the run fails
  with \<open>not_pending\<close>, the store is unchanged and no remote write was issued. The pointers
  stay as the stash left them: the run issues no \<^verbatim>\<open>removeItem\<close>, and where the storage took
  the stash both keys still hold the link.
\<close>

theorem C6_not_pending_no_writes:
  assumes "invite_resolved e t orgId w inviteId iv"
    and "field iv ''status'' \<in> {JStr ''accepted'', JStr ''revoked'', JStr ''expired''}"
    and "accept_invite e (Some t) (Some orgId) (Some u) w = (out, w')"
  shows "out = not_pending \<and> db w' = db w \<and> writes (trace w') = [] \<and>
         ls w' = ls (at_callback e t orgId w) \<and>
         filter (\<lambda>c. \<not> is_set_item c) (storage_calls (trace w')) = [] \<and>
         (ls w \<noteq> None \<and> \<not> set_throws e PENDING_INVITE_KEY \<and> \<not> set_throws e AFTER_ONBOARDING_NEXT \<longrightarrow>
            getItem w' PENDING_INVITE_KEY = Some (invitePath (Some t) orgId) \<and>
            getItem w' AFTER_ONBOARDING_NEXT = Some (invitePath (Some t) orgId))"
proof -
  have ne: "t \<noteq> []" "orgId \<noteq> []" using assms(1) by (simp_all add: invite_resolved_def)
  have st: "truthy (field iv ''status'') \<and> field iv ''status'' \<noteq> JStr ''pending''"
    using assms(2) by auto
  have run: "accept_invite e (Some t) (Some orgId) (Some u) w =
      (not_pending, (at_checks e t orgId inviteId w)\<lparr>err := Some ''This invitation is not pending anymore.'', busy := False\<rparr>)"
    by (simp add: run_at_checks [OF assms(1)] checks_def st fail_def finish_def)
  with assms(3) have out: "out = not_pending"
    and w': "w' = (at_checks e t orgId inviteId w)\<lparr>err := Some ''This invitation is not pending anymore.'', busy := False\<rparr>"
    by simp_all
  show ?thesis
    using at_callback_stashed [OF ne, of w e] at_callback_storage_sets [OF ne, of e w]
    by (simp add: out w' getItem_def)
qed

theorem C6_not_pending_no_writes_witness:
  "invite_resolved envA ''tok123'' ''orgA'' worldD ''inv1'' inviteD \<and>
   field inviteD ''status'' \<in> {JStr ''accepted'', JStr ''revoked'', JStr ''expired''} \<and>
   fst (accept_invite envA (Some ''tok123'') (Some ''orgA'') (Some userPat) worldD) = not_pending \<and>
   db (snd (accept_invite envA (Some ''tok123'') (Some ''orgA'') (Some userPat) worldD)) = db worldD \<and>
   writes (trace (snd (accept_invite envA (Some ''tok123'') (Some ''orgA'') (Some userPat) worldD))) = []"
proof -
  have st: "field inviteD ''status'' \<in> {JStr ''accepted'', JStr ''revoked'', JStr ''expired''}"
    by (simp add: inviteD_def field_def)
  show ?thesis
    using C6_not_pending_no_writes [OF resolved_D st prod.collapse [symmetric], of userPat] resolved_D st by simp
qed

text \<open>
  Claim C9. Take a run that joins when the org-name read and the invite deletion are not
  rejected. Then the same run with either or both of them rejected joins as well: it ends
  with the success notice, neither pointer key holds a value, the scope is the new org, no
  error is shown, and a controller that had not completed before navigates to the root.
  The deletion is attempted once and its rejection changes nothing of this; when the
  org-name read is rejected the name is \<^verbatim>\<open>"Clinic"\<close>, and the index entry is written with it.
\<close>

theorem C9_best_effort_failures_do_not_abort:
  assumes "fst (accept_invite (e\<lparr>rejects := (rejects e)(ReadOrg := None, DeleteInvite := None)\<rparr>)
                 token org usr w) = Joined n0"
    and "accept_invite e token org usr w = (out, w')"
  shows "\<exists>n g p. out = Joined n \<and> org = Some g \<and> pointers_cleared w' \<and> scope w' = Some (g, n) \<and>
           err w' = None \<and> (\<not> completed w \<longrightarrow> nav w' = Some (Nav ''/'' (Some n))) \<and>
           calls_at DeleteInvite (trace w') = [(DeleteDoc, p, rejects e DeleteInvite = None)] \<and>
           (rejects e ReadOrg \<noteq> None \<longrightarrow> n = JStr ''Clinic'' \<and>
              (\<exists>x q. calls_at Index (trace w') = [(SetDoc x True, q, True)] \<and>
                 x ''orgName'' = Some (JStr ''Clinic'')))"
proof -
  let ?e0 = "e\<lparr>rejects := (rejects e)(ReadOrg := None, DeleteInvite := None)\<rparr>"
  obtain w0 where "accept_invite ?e0 token org usr w = (Joined n0, w0)"
    using assms(1) by (cases "accept_invite ?e0 token org usr w") simp
  from run_Joined [OF this] obtain t g u i iv f l w'' where
    in0: "token = Some t" "org = Some g" "usr = Some u"
    and r: "invite_resolved e t g w i iv" and st: "status_open iv" "\<not> email_mismatch iv u"
    and nm: "resolved_names e u w = (Some f, Some l)"
    and jn: "join ?e0 g i iv u f l (at_join ?e0 t g i u w) = (Inr (Joined n0), w'')"
    by auto
  from join_success [OF jn] obtain d where ok: "claim_ok e iv" "valid_ref [''orgs'', g, ''members'', uid u]"
      "rejects e CreateMember = None" "rejects e Index = None"
    and fin: "finalise ?e0 g i (org_name_read ?e0 g (at_join ?e0 t g i u w))
        (index_world ?e0 g i iv u f l d (at_join ?e0 t g i u w)) = (Inr (Joined n0), w'')"
    by auto
  have "scope_ok ?e0 g (db (index_world ?e0 g i iv u f l d (at_join ?e0 t g i u w)))"
    using finalise_ok_iff [of ?e0 g i "org_name_read ?e0 g (at_join ?e0 t g i u w)"
        "index_world ?e0 g i iv u f l d (at_join ?e0 t g i u w)"] fin
    by blast
  then have sc: "scope_ok e g (db (index_world e g i iv u f l iv (at_join e t g i u w)))"
    using scope_ok_index_world [of e g ?e0 g i iv u f l d ?e0 t g i u w e iv f l iv e]
    by simp
  from run_Joined_intro [OF r st nm ok sc] assms(2) in0
  have run: "accept_invite e (Some t) (Some g) (Some u) w = (Joined (org_name_read e g w), w')"
    and out: "out = Joined (org_name_read e g w)" by auto
  from run_Joined_facts [OF r run] obtain f' l' d' W where
    W: "W = index_world e g i iv u f' l' d' (at_join e t g i u w)"
    and facts: "pointers_cleared w'" "scope w' = Some (g, org_name_read e g w)" "err w' = None"
      "\<not> completed w \<longrightarrow> nav w' = Some (Nav ''/'' (Some (org_name_read e g w)))"
    and calls: "\<forall>s. s \<noteq> ScopeUpdate \<and> s \<noteq> ScopeSet \<longrightarrow> calls_at s (trace w') = calls_at s (trace (deleted e g i W))"
    by blast
  have del: "calls_at DeleteInvite (trace w') = [(DeleteDoc, invite_path g i, rejects e DeleteInvite = None)]"
    using calls by (simp add: W deleted_def index_world_calls)
  have idx: "calls_at Index (trace w') =
      [(SetDoc (payload (index_obj e iv g (org_name_read e g w))) True, membership_path (uid u) g, True)]"
    using calls
    by (simp add: W deleted_calls_at index_world_calls)
  have clinic: "org_name_read e g w = JStr ''Clinic''" if "rejects e ReadOrg \<noteq> None"
    using that by (auto simp add: org_name_read_def org_read_def get_doc_eq org_name_def split: sum.splits)
  have nmf: "payload (index_obj e iv g n) ''orgName'' = Some n" if "n \<noteq> JUndefined" for n
    using that by (simp add: payload_def index_obj_def)
  show ?thesis
    using out in0 facts del idx clinic nmf [of "JStr ''Clinic''"]
    by auto
qed

theorem C9_best_effort_failures_do_not_abort_witness:
  "fst (accept_invite (envFlaky\<lparr>rejects := (rejects envFlaky)(ReadOrg := None, DeleteInvite := None)\<rparr>)
          (Some ''tok123'') (Some ''orgA'') (Some userPat) worldA) = Joined (JStr ''Acme'') \<and>
   rejects envFlaky ReadOrg \<noteq> None \<and> rejects envFlaky DeleteInvite \<noteq> None \<and>
   fst (accept_invite envFlaky (Some ''tok123'') (Some ''orgA'') (Some userPat) worldA) = Joined (JStr ''Clinic'') \<and>
   pointers_cleared (snd (accept_invite envFlaky (Some ''tok123'') (Some ''orgA'') (Some userPat) worldA)) \<and>
   scope (snd (accept_invite envFlaky (Some ''tok123'') (Some ''orgA'') (Some userPat) worldA))
     = Some (''orgA'', JStr ''Clinic'') \<and>
   nav (snd (accept_invite envFlaky (Some ''tok123'') (Some ''orgA'') (Some userPat) worldA))
     = Some (Nav ''/'' (Some (JStr ''Clinic'')))"
proof -
  have best: "fst (accept_invite (envFlaky\<lparr>rejects := (rejects envFlaky)(ReadOrg := None, DeleteInvite := None)\<rparr>)
          (Some ''tok123'') (Some ''orgA'') (Some userPat) worldA) = Joined (JStr ''Acme'')"
    by (simp add: envFlaky_best scenario_A_joined)
  have fl: "rejects envFlaky ReadOrg \<noteq> None" "rejects envFlaky DeleteInvite \<noteq> None" "\<not> completed worldA"
    by (simp_all add: envFlaky_def worldA_def)
  show ?thesis
    using C9_best_effort_failures_do_not_abort [OF best prod.collapse [symmetric]] best fl by auto
qed

text \<open>
  Claim C10. Every claim write a run issues sends the same value in \<^verbatim>\<open>claimedEmail\<close> and
  \<^verbatim>\<open>claimedEmail_lc\<close>: \<open>myEmail\<close> of the caller, that is the trimmed, lower-cased email, or
  null without one. That value is its own lower-casing, so the casing of the authenticated
  email is not kept in the claim block.
\<close>

theorem C10_claimed_email_case_folded:
  assumes "accept_invite e token org (Some u) w = (out, w')"
    and "(c, p, ok) \<in> set (calls_at Claim (trace w'))"
  shows "\<exists>d. c = UpdateDoc d \<and>
           d ''claimedEmail'' = Some (js_of (myEmail u)) \<and>
           d ''claimedEmail_lc'' = d ''claimedEmail'' \<and>
           (\<forall>s. myEmail u = Some s \<longrightarrow> toLowerCase s = s)"
proof -
  from run_claim_calls [OF assms(1)] assms(2) obtain iv f l
    where "c = UpdateDoc (payload (claim_obj e iv u f l))"
    by (auto simp add: claim_calls_ok_def list_all_iff is_claim_call_def)
  then show ?thesis
    by (auto simp add: claim_payload_email myEmail_lower)
qed

theorem C10_claimed_email_case_folded_witness:
  "\<exists>c p ok. (c, p, ok) \<in> set (calls_at Claim (trace (snd (accept_invite envA (Some ''tok123'') (Some ''orgA'')
        (Some userPat) worldA)))) \<and>
     (\<exists>d. c = UpdateDoc d \<and> d ''claimedEmail'' = Some (JStr ''pat@example.com'') \<and>
        d ''claimedEmail_lc'' = d ''claimedEmail'')"
proof -
  let ?w' = "snd (accept_invite envA (Some ''tok123'') (Some ''orgA'') (Some userPat) worldA)"
  have run: "accept_invite envA (Some ''tok123'') (Some ''orgA'') (Some userPat) worldA = (Joined (JStr ''Acme''), ?w')"
    using scenario_A_joined by (metis prod.collapse)
  from run_Joined_facts [OF resolved_A run] obtain f l d W where
    W: "W = index_world envA ''orgA'' ''inv1'' inviteA userPat f l d (at_join envA ''tok123'' ''orgA'' ''inv1'' userPat worldA)"
    and calls: "\<forall>s. s \<noteq> ScopeUpdate \<and> s \<noteq> ScopeSet \<longrightarrow>
      calls_at s (trace ?w') = calls_at s (trace (deleted envA ''orgA'' ''inv1'' W))"
    by blast
  have "calls_at Claim (trace ?w') =
      [(UpdateDoc (payload (claim_obj envA inviteA userPat f l)), invite_path ''orgA'' ''inv1'', True)]"
    using calls by (simp add: W deleted_calls_at index_world_calls)
  then have mem: "(UpdateDoc (payload (claim_obj envA inviteA userPat f l)), invite_path ''orgA'' ''inv1'', True)
      \<in> set (calls_at Claim (trace ?w'))" by simp
  have me: "myEmail userPat = Some ''pat@example.com''"
    by (simp add: myEmail_def userPat_def or_null_def lower_Pat)
  from C10_claimed_email_case_folded [OF run mem] show ?thesis using mem by (auto simp add: me js_of_def)
qed


end
